theory Spec2Isabelle
  imports Main "HOL-Library.Sublist"
begin

section \<open>Python string primitives used by the subtitle converter\<close>

text \<open>
  The converter of \<^verbatim>\<open>backend/download_subtitle.py\<close> works on Python \<^verbatim>\<open>str\<close> values.
  A string is modelled as a list of characters, each character standing for one code
  point; HOL's \<^typ>\<open>char\<close> covers the code points 0 to 255, and the character classes
  below are Python's on that range. Python's integers are unbounded, so the value of
  \<^verbatim>\<open>int(h)\<close> is a natural number of any size; the conversion refuses a string of more
  than 4300 digits. The substring test \<^verbatim>\<open>a in b\<close> is \<^const>\<open>sublist\<close> and
  \<^verbatim>\<open>b.startswith(a)\<close> is \<^const>\<open>prefix\<close>.
\<close>

abbreviation NL :: char where
  "NL \<equiv> CHR 0x0A"

abbreviation BSL :: char where
  "BSL \<equiv> CHR 0x5C"

abbreviation CR :: char where
  "CR \<equiv> CHR 0x0D"

text \<open>\<^verbatim>\<open>str.isspace\<close> on one character: TAB to CR, FS to US and the blank, NEL, NBSP.\<close>

definition isspace :: "char \<Rightarrow> bool" where
  "isspace c =
     (let n = (of_char c :: nat)
      in (9 \<le> n \<and> n \<le> 13) \<or> (28 \<le> n \<and> n \<le> 32) \<or> n = 133 \<or> n = 160)"

text \<open>\<^verbatim>\<open>s.strip()\<close>: whitespace removed at both ends.\<close>

definition strip :: "string \<Rightarrow> string" where
  "strip s = rev (dropWhile isspace (rev (dropWhile isspace s)))"

text \<open>\<^verbatim>\<open>s.lower()\<close>: A to Z and the upper-case letters of Latin-1 move up by 32.\<close>

definition lower_char :: "char \<Rightarrow> char" where
  "lower_char c =
     (let n = (of_char c :: nat)
      in if (65 \<le> n \<and> n \<le> 90) \<or> (192 \<le> n \<and> n \<le> 222 \<and> n \<noteq> 215)
         then char_of (n + 32) else c)"

definition lower :: "string \<Rightarrow> string" where
  "lower s = map lower_char s"

text \<open>\<^verbatim>\<open>s.split(sep)\<close> for a one-character separator: never the empty list.\<close>

fun split_chr :: "char \<Rightarrow> string \<Rightarrow> string list" where
  "split_chr sep [] = [[]]"
| "split_chr sep (c # cs) =
     (if c = sep then [] # split_chr sep cs
      else (case split_chr sep cs of
              [] \<Rightarrow> [[c]]
            | w # ws \<Rightarrow> (c # w) # ws))"

text \<open>\<^verbatim>\<open>s.split(sep, maxsplit)\<close> with \<open>maxsplit \<ge> 0\<close>: at most \<open>maxsplit\<close> cuts, the
  last field keeps the separators that are left.\<close>

fun split_max :: "char \<Rightarrow> nat \<Rightarrow> string \<Rightarrow> string list" where
  "split_max sep 0 s = [s]"
| "split_max sep (Suc n) [] = [[]]"
| "split_max sep (Suc n) (c # cs) =
     (if c = sep then [] # split_max sep n cs
      else (case split_max sep (Suc n) cs of
              [] \<Rightarrow> [[c]]
            | w # ws \<Rightarrow> (c # w) # ws))"

text \<open>\<^verbatim>\<open>'\n'.join(xs)\<close>.\<close>

fun join_nl :: "string list \<Rightarrow> string" where
  "join_nl [] = []"
| "join_nl [x] = x"
| "join_nl (x # y # ys) = x @ [NL] @ join_nl (y # ys)"

text \<open>\<^verbatim>\<open>s.replace(old, new)\<close> for a two-character \<open>old = [a, b]\<close>, left to right, without
  overlap.\<close>

fun replace2 :: "char \<Rightarrow> char \<Rightarrow> string \<Rightarrow> string \<Rightarrow> string" where
  "replace2 a b new (x # y # rest) =
     (if x = a \<and> y = b then new @ replace2 a b new rest
      else x # replace2 a b new (y # rest))"
| "replace2 a b new s = s"

text \<open>\<^verbatim>\<open>s.replace(a, b)\<close> for one-character \<open>a\<close> and \<open>b\<close>.\<close>

definition replace1 :: "char \<Rightarrow> char \<Rightarrow> string \<Rightarrow> string" where
  "replace1 a b s = map (\<lambda>c. if c = a then b else c) s"

text \<open>\<^verbatim>\<open>d.get(k, '')\<close> on \<^verbatim>\<open>d = dict(pairs)\<close>: the last pair of a key wins.\<close>

definition dict_get :: "(string \<times> string) list \<Rightarrow> string \<Rightarrow> string" where
  "dict_get pairs k = (case map_of (rev pairs) k of None \<Rightarrow> [] | Some v \<Rightarrow> v)"

section \<open>Regular expressions of the converter\<close>

text \<open>\<^verbatim>\<open>\d\<close> on the code points 0 to 255: the ten ASCII digits.\<close>

definition isdigit :: "char \<Rightarrow> bool" where
  "isdigit c = (let n = (of_char c :: nat) in 48 \<le> n \<and> n \<le> 57)"

text \<open>The groups of the timestamp pattern: \<^verbatim>\<open>\d+\<close> and \<^verbatim>\<open>\d{2}\<close>, matched in full.\<close>

definition digits1 :: "string \<Rightarrow> bool" where
  "digits1 s = (s \<noteq> [] \<and> list_all isdigit s)"

definition digits2 :: "string \<Rightarrow> bool" where
  "digits2 s = (length s = 2 \<and> list_all isdigit s)"

text \<open>
  \<^verbatim>\<open>re.match(r'(\d+):(\d{2}):(\d{2})\.(\d{2})', ts)\<close>, the four groups of the match at
  the start of \<open>ts\<close>. The character after \<^verbatim>\<open>\d+\<close> must be a colon, so the only run of
  digits that can match is the longest one; whatever follows the two digits of the last
  group is not looked at.
\<close>

definition match_timestamp :: "string \<Rightarrow> (string \<times> string \<times> string \<times> string) option" where
  "match_timestamp ts =
     (let h = takeWhile isdigit ts in
      if h = [] then None
      else (case dropWhile isdigit ts of
              c1 # m1 # m2 # c2 # s1 # s2 # d # x1 # x2 # _ \<Rightarrow>
                if c1 = CHR '':'' \<and> isdigit m1 \<and> isdigit m2 \<and> c2 = CHR '':'' \<and>
                   isdigit s1 \<and> isdigit s2 \<and> d = CHR ''.'' \<and> isdigit x1 \<and> isdigit x2
                then Some (h, [m1, m2], [s1, s2], [x1, x2])
                else None
            | _ \<Rightarrow> None))"

text \<open>
  The only exception the converter can raise on a string. \<^verbatim>\<open>int(h)\<close> raises it when
  \<open>h\<close> has more decimal digits than the interpreter's limit on the conversion of a
  string to an integer, 4300 unless configured otherwise; leading zeros count.
\<close>

datatype error = ValueError

definition int_max_str_digits :: nat where
  "int_max_str_digits = 4300"

text \<open>The number that a string of digits denotes.\<close>

definition digits_value :: "string \<Rightarrow> nat" where
  "digits_value h = foldl (\<lambda>n c. 10 * n + (of_char c - 48)) 0 h"

text \<open>\<^verbatim>\<open>int(h)\<close> on a string of digits.\<close>

definition int_of_digits :: "string \<Rightarrow> error + nat" where
  "int_of_digits h =
     (if int_max_str_digits < length h then Inl ValueError else Inr (digits_value h))"

text \<open>\<^verbatim>\<open>str(n)\<close> and the format \<^verbatim>\<open>{n:02d}\<close> for \<open>n \<ge> 0\<close>.\<close>

fun str_nat :: "nat \<Rightarrow> string" where
  "str_nat n =
     (if n < 10 then [char_of (48 + n)]
      else str_nat (n div 10) @ [char_of (48 + n mod 10)])"

declare str_nat.simps [simp del]

definition fmt02d :: "nat \<Rightarrow> string" where
  "fmt02d n = replicate (2 - length (str_nat n)) (CHR ''0'') @ str_nat n"

text \<open>
  The nested function of \<^verbatim>\<open>ass_to_vtt\<close>; \<open>Inl\<close> is the exception that \<^verbatim>\<open>int(h)\<close>
  raises.
\<close>

definition convert_timestamp :: "string \<Rightarrow> error + string" where
  "convert_timestamp ts =
     (case match_timestamp ts of
        Some (h, m, s, cs) \<Rightarrow>
          (case int_of_digits h of
             Inl e \<Rightarrow> Inl e
           | Inr n \<Rightarrow> Inr (fmt02d n @ '':'' @ m @ '':'' @ s @ ''.'' @ cs @ ''0''))
      | None \<Rightarrow> Inr ts)"

text \<open>
  \<^verbatim>\<open>re.sub(r'\{[^}]*\}', '', text)\<close>: an opening brace with a closing brace somewhere
  after it is removed up to the first such closing brace; an opening brace with none
  after it stays.
\<close>

function sub_tags :: "string \<Rightarrow> string" where
  "sub_tags [] = []"
| "sub_tags (c # cs) =
     (if c = CHR ''{'' \<and> CHR ''}'' \<in> set cs
      then sub_tags (tl (dropWhile (\<lambda>x. x \<noteq> CHR ''}'') cs))
      else c # sub_tags cs)"
  by pat_completeness auto
termination
proof (relation "measure length")
  fix c :: char and cs :: string
  have "length (tl (dropWhile (\<lambda>x. x \<noteq> CHR ''}'') cs)) \<le> length cs"
    using length_dropWhile_le [of "\<lambda>x. x \<noteq> CHR ''}''" cs] by simp
  then show "(tl (dropWhile (\<lambda>x. x \<noteq> CHR ''}'') cs), c # cs) \<in> measure length"
    by simp
qed simp_all

text \<open>
  \<^verbatim>\<open>re.split(r'\n\n+', s)\<close>: the text is cut at every run of two or more line feeds;
  \<open>cur\<close> holds the piece being read, reversed.
\<close>

function split_blank :: "string \<Rightarrow> string \<Rightarrow> string list" where
  "split_blank cur [] = [rev cur]"
| "split_blank cur (c # cs) =
     (if c = NL \<and> take 1 cs = [NL]
      then rev cur # split_blank [] (dropWhile (\<lambda>x. x = NL) cs)
      else split_blank (c # cur) cs)"
  by pat_completeness auto
termination
proof (relation "measure (\<lambda>(cur, s). length s)")
  fix cur :: string and c :: char and cs :: string
  show "(([], dropWhile (\<lambda>x. x = NL) cs), (cur, c # cs)) \<in> measure (\<lambda>(cur, s). length s)"
    using length_dropWhile_le [of "\<lambda>x. x = NL" cs] by simp
qed simp_all

section \<open>ASS/SSA to WebVTT\<close>

text \<open>The variables of the loop of \<^verbatim>\<open>ass_to_vtt\<close>.\<close>

record ass_state =
  in_events :: bool
  format_line :: "string list option"
  vtt_lines :: "string list"

text \<open>
  The part of the loop body that handles a \<^verbatim>\<open>Dialogue:\<close> line once a non-empty
  \<open>format_line\<close> is known: the new \<open>vtt_lines\<close>. Every \<^verbatim>\<open>continue\<close> returns the list
  unchanged; an exception raised while a timestamp is converted leaves the function.
\<close>

definition ass_dialogue :: "string list \<Rightarrow> string \<Rightarrow> string list \<Rightarrow> error + string list" where
  "ass_dialogue fl line vtt =
     (let parts = split_max (CHR '','') (length fl - 1) (drop 9 line) in
      if length parts < length fl then Inr vtt
      else
        let dialogue = zip fl parts;
            start = dict_get dialogue ''start'';
            end' = dict_get dialogue ''end'';
            text = dict_get dialogue ''text''
        in if start = [] \<or> end' = [] \<or> text = [] then Inr vtt
           else
             (case convert_timestamp start of
                Inl e \<Rightarrow> Inl e
              | Inr vtt_start \<Rightarrow>
                  (case convert_timestamp end' of
                     Inl e \<Rightarrow> Inl e
                   | Inr vtt_end \<Rightarrow>
                       let text1 = sub_tags text;
                           text2 = replace2 BSL (CHR ''n'') [NL]
                                     (replace2 BSL (CHR ''N'') [NL] text1)
                       in if strip text2 \<noteq> []
                          then Inr (vtt @ [vtt_start @ '' --> '' @ vtt_end, strip text2, []])
                          else Inr vtt)))"

text \<open>
  One iteration of the loop on the raw line: \<open>Inr None\<close> is \<^verbatim>\<open>break\<close>, \<open>Inr (Some st)\<close>
  the state for the next line, \<open>Inl\<close> an exception.
\<close>

definition ass_body :: "string \<Rightarrow> ass_state \<Rightarrow> error + ass_state option" where
  "ass_body raw st =
     (let line = strip raw in
      if lower line = ''[events]'' then Inr (Some (st\<lparr>in_events := True\<rparr>))
      else if prefix ''['' line \<and> in_events st then Inr None
      else if in_events st then
        (if prefix ''format:'' (lower line) then
           Inr (Some (st\<lparr>format_line :=
             Some (map (\<lambda>f. lower (strip f)) (split_chr (CHR '','') (strip (drop 7 line))))\<rparr>))
         else if prefix ''dialogue:'' (lower line) then
           (case format_line st of
              None \<Rightarrow> Inr (Some st)
            | Some fl \<Rightarrow>
                if fl = [] then Inr (Some st)
                else (case ass_dialogue fl line (vtt_lines st) of
                        Inl e \<Rightarrow> Inl e
                      | Inr vtt \<Rightarrow> Inr (Some (st\<lparr>vtt_lines := vtt\<rparr>))))
         else Inr (Some st))
      else Inr (Some st))"

text \<open>The loop over the lines: the state when it ends, or the exception that ended it.\<close>

fun ass_loop :: "string list \<Rightarrow> ass_state \<Rightarrow> error + ass_state" where
  "ass_loop [] st = Inr st"
| "ass_loop (raw # rest) st =
     (case ass_body raw st of
        Inl e \<Rightarrow> Inl e
      | Inr None \<Rightarrow> Inr st
      | Inr (Some st') \<Rightarrow> ass_loop rest st')"

definition ass_init :: ass_state where
  "ass_init = \<lparr>in_events = False, format_line = None, vtt_lines = [''WEBVTT'', []]\<rparr>"

definition ass_to_vtt :: "string \<Rightarrow> error + string" where
  "ass_to_vtt ass_content =
     (case ass_loop (split_chr NL ass_content) ass_init of
        Inl e \<Rightarrow> Inl e
      | Inr st \<Rightarrow> Inr (join_nl (vtt_lines st)))"

section \<open>SRT to WebVTT\<close>

text \<open>
  The inner loop over \<^verbatim>\<open>enumerate(lines)\<close>: the first line with an arrow and a comma,
  and the index after it; \<open>None\<close> when the loop ends without \<^verbatim>\<open>break\<close>.
\<close>

fun find_timestamp :: "nat \<Rightarrow> string list \<Rightarrow> (string \<times> nat) option" where
  "find_timestamp i [] = None"
| "find_timestamp i (line # rest) =
     (if sublist ''-->'' line \<and> CHR '','' \<in> set line then Some (line, i + 1)
      else find_timestamp (i + 1) rest)"

text \<open>One iteration of the loop over the blocks: the new \<open>vtt_lines\<close>.\<close>

definition srt_body :: "string \<Rightarrow> string list \<Rightarrow> string list" where
  "srt_body block vtt =
     (let lines = split_chr NL (strip block) in
      if length lines < 2 then vtt
      else (case find_timestamp 0 lines of
              None \<Rightarrow> vtt
            | Some (timestamp_line, text_start) \<Rightarrow>
                if timestamp_line = [] then vtt
                else
                  let vtt_timestamp = replace1 (CHR '','') (CHR ''.'') timestamp_line;
                      text_lines = drop text_start lines
                  in if text_lines = [] then vtt
                     else vtt @ [vtt_timestamp] @ text_lines @ [[]]))"

definition srt_to_vtt :: "string \<Rightarrow> string" where
  "srt_to_vtt srt_content =
     (if srt_content = [] then ''WEBVTT'' @ [NL, NL]
      else join_nl (foldl (\<lambda>vtt block. srt_body block vtt) [''WEBVTT'', []]
                      (split_blank [] (strip srt_content))))"

section \<open>Format detection\<close>

text \<open>No step of \<^verbatim>\<open>srt_to_vtt\<close> can raise, so only the ASS path carries an exception.\<close>

definition convert_to_vtt :: "string \<Rightarrow> error + string" where
  "convert_to_vtt content =
     (if content = [] then Inr (''WEBVTT'' @ [NL, NL])
      else if sublist ''[Script Info]'' content \<or> sublist ''[V4+ Styles]'' content
              \<or> sublist ''[Events]'' content
      then ass_to_vtt content
      else Inr (srt_to_vtt content))"

section \<open>Zero-padding of a string of digits\<close>

text \<open>
  Padding a string with zeros on the left to a width of at least two, and the numeral
  of a string of digits without its redundant leading zeros. The conversion of the hours
  of an ASS timestamp is compared with these.
\<close>

definition zero_pad2 :: "string \<Rightarrow> string" where
  "zero_pad2 h = replicate (2 - length h) (CHR ''0'') @ h"

definition canonical_digits :: "string \<Rightarrow> string" where
  "canonical_digits h =
     (let z = dropWhile (\<lambda>c. c = CHR ''0'') h in if z = [] then ''0'' else z)"

section \<open>One row of the ASS scan\<close>

text \<open>Every exit of the dialogue handler keeps the lines emitted so far.\<close>

lemma ass_dialogue_append:
  "ass_dialogue fl line vtt =
     (case ass_dialogue fl line [] of Inl e \<Rightarrow> Inl e | Inr new \<Rightarrow> Inr (vtt @ new))"
  by (simp add: ass_dialogue_def Let_def split: sum.splits)

lemma lower_bracket: "lower_char (CHR ''['') = CHR ''[''"
  by (simp add: lower_char_def)

lemma dialogue_not_header:
  assumes "prefix ''dialogue:'' (lower line)"
  shows "lower line \<noteq> ''[events]'' \<and> \<not> prefix ''['' line"
proof -
  from assms obtain c cs where l: "line = c # cs" and c: "lower_char c = CHR ''d''"
    by (cases line) (auto simp: lower_def)
  have "c \<noteq> CHR ''[''"
    using c lower_bracket by auto
  with l c show ?thesis
    by (auto simp: lower_def)
qed

lemma dialogue_not_format:
  assumes "prefix ''dialogue:'' (lower line)"
  shows "\<not> prefix ''format:'' (lower line)"
  using assms by (cases "lower line") auto

text \<open>A \<^verbatim>\<open>Dialogue:\<close> line in events mode with a schema goes to the dialogue handler.\<close>

lemma ass_body_dialogue:
  assumes "in_events st" and "format_line st = Some fl" and "fl \<noteq> []"
    and "prefix ''dialogue:'' (lower (strip raw))"
  shows "ass_body raw st =
           (case ass_dialogue fl (strip raw) [] of
              Inl e \<Rightarrow> Inl e
            | Inr new \<Rightarrow> Inr (Some (st\<lparr>vtt_lines := vtt_lines st @ new\<rparr>)))"
proof -
  have "ass_body raw st =
          (case ass_dialogue fl (strip raw) (vtt_lines st) of
             Inl e \<Rightarrow> Inl e
           | Inr vtt \<Rightarrow> Inr (Some (st\<lparr>vtt_lines := vtt\<rparr>)))"
    using assms dialogue_not_header [OF assms(4)] dialogue_not_format [OF assms(4)]
    by (simp add: ass_body_def Let_def)
  then show ?thesis
    by (simp add: ass_dialogue_append [of fl _ "vtt_lines st"] split: sum.splits)
qed

lemma ass_body_format_layer:
  assumes "in_events st"
  shows "ass_body ''Format: Layer, Start, End, Text'' st =
           Inr (Some (st\<lparr>format_line := Some [''layer'', ''start'', ''end'', ''text'']\<rparr>))"
proof -
  have h1: "strip ''Format: Layer, Start, End, Text'' = ''Format: Layer, Start, End, Text''"
    by code_simp
  have h2: "lower ''Format: Layer, Start, End, Text'' = ''format: layer, start, end, text''"
    by code_simp
  have h3: "map (\<lambda>f. lower (strip f))
              (split_chr (CHR '','') (strip (drop 7 ''Format: Layer, Start, End, Text'')))
            = [''layer'', ''start'', ''end'', ''text'']"
    by code_simp
  show ?thesis
    unfolding ass_body_def Let_def h1 h2 h3 using assms by simp
qed





lemma ass_body_events_header:
  "ass_body ''[Events]'' st = Inr (Some (st\<lparr>in_events := True\<rparr>))"
proof -
  have h: "lower (strip ''[Events]'') = ''[events]''" by code_simp
  show ?thesis unfolding ass_body_def Let_def h by simp
qed

section \<open>The example row of an ASS document\<close>




section \<open>Dispatch on the detected format\<close>

text \<open>
  C4: detection is total, and the three markers decide the path. Any text that has one
  of \<^verbatim>\<open>[Script Info]\<close>, \<^verbatim>\<open>[V4+ Styles]\<close>, \<^verbatim>\<open>[Events]\<close> as a substring is converted by
  \<^const>\<open>ass_to_vtt\<close>, every other text by \<^const>\<open>srt_to_vtt\<close>; the empty text, which
  \<^const>\<open>convert_to_vtt\<close> answers itself, gets what \<^const>\<open>srt_to_vtt\<close> returns for it.
\<close>

theorem convert_dispatch:
  "convert_to_vtt content =
     (if sublist ''[Script Info]'' content \<or> sublist ''[V4+ Styles]'' content
         \<or> sublist ''[Events]'' content
      then ass_to_vtt content else Inr (srt_to_vtt content))"
  by (cases content) (simp_all add: convert_to_vtt_def srt_to_vtt_def)

section \<open>The ASS scan as a state machine\<close>

text \<open>How one line moves the state of the scan, and what the loop keeps.\<close>

lemma ass_body_outside:
  assumes "\<not> in_events st" and "lower (strip raw) \<noteq> ''[events]''"
  shows "ass_body raw st = Inr (Some st)"
  using assms by (simp add: ass_body_def Let_def)

lemma ass_body_header:
  assumes "lower (strip raw) = ''[events]''"
  shows "ass_body raw st = Inr (Some (st\<lparr>in_events := True\<rparr>))"
  using assms by (simp add: ass_body_def Let_def)

lemma ass_body_section:
  assumes "in_events st" and "prefix ''['' (strip raw)" and "lower (strip raw) \<noteq> ''[events]''"
  shows "ass_body raw st = Inr None"
  using assms by (simp add: ass_body_def Let_def)

lemma ass_body_in_events:
  assumes "ass_body raw st = Inr (Some st')"
    and "in_events st \<or> lower (strip raw) = ''[events]''"
  shows "in_events st'"
  using assms
  by (auto simp: ass_body_def Let_def split: if_splits option.splits sum.splits)

lemma ass_body_no_format:
  assumes "format_line st = None" and "prefix ''dialogue:'' (lower (strip raw))"
  shows "ass_body raw st = Inr (Some st)"
  using assms dialogue_not_header [OF assms(2)] dialogue_not_format [OF assms(2)]
  by (simp add: ass_body_def Let_def)

lemma ass_body_keeps_no_format:
  assumes "format_line st = None" and "\<not> prefix ''format:'' (lower (strip raw))"
  shows "ass_body raw st = Inr None \<or>
    (\<exists>st'. ass_body raw st = Inr (Some st') \<and> format_line st' = None
        \<and> vtt_lines st' = vtt_lines st)"
  using assms by (simp add: ass_body_def Let_def)

lemma ass_loop_before_events:
  assumes "\<not> in_events st" and "\<forall>raw\<in>set pre. lower (strip raw) \<noteq> ''[events]''"
  shows "ass_loop (pre @ rest) st = ass_loop rest st"
  using assms by (induction pre) (simp_all add: ass_body_outside)

lemma ass_loop_no_format:
  assumes "format_line st = None"
    and "\<forall>raw\<in>set pre. \<not> prefix ''format:'' (lower (strip raw))"
  shows "\<exists>st'. ass_loop pre st = Inr st' \<and> format_line st' = None
           \<and> vtt_lines st' = vtt_lines st"
  using assms
proof (induction pre arbitrary: st)
  case Nil
  then show ?case by simp
next
  case (Cons raw pre)
  have nf: "\<not> prefix ''format:'' (lower (strip raw))"
    using Cons.prems(2) by simp
  from ass_body_keeps_no_format [OF Cons.prems(1) nf] show ?case
  proof
    assume "ass_body raw st = Inr None"
    with Cons.prems(1) show ?thesis by simp
  next
    assume "\<exists>st'. ass_body raw st = Inr (Some st') \<and> format_line st' = None
        \<and> vtt_lines st' = vtt_lines st"
    then obtain st' where b: "ass_body raw st = Inr (Some st')"
      and k: "format_line st' = None" "vtt_lines st' = vtt_lines st"
      by blast
    from Cons.IH [OF k(1)] Cons.prems(2) obtain st'' where
      "ass_loop pre st' = Inr st''" "format_line st'' = None" "vtt_lines st'' = vtt_lines st'"
      by auto
    with b k show ?thesis by simp
  qed
qed

lemma ass_loop_stops:
  assumes "in_events st \<or> (\<exists>raw\<in>set pre. lower (strip raw) = ''[events]'')"
    and "prefix ''['' (strip h)" and "lower (strip h) \<noteq> ''[events]''"
  shows "ass_loop (pre @ h # post) st = ass_loop pre st"
  using assms(1)
proof (induction pre arbitrary: st)
  case Nil
  then show ?case
    using assms(2,3) by (simp add: ass_body_section)
next
  case (Cons raw pre)
  show ?case
  proof (cases "ass_body raw st")
    case (Inl e)
    then show ?thesis by simp
  next
    case (Inr r)
    show ?thesis
    proof (cases r)
      case None
      with Inr show ?thesis by simp
    next
      case (Some st')
      with Inr have b: "ass_body raw st = Inr (Some st')" by simp
      have "in_events st' \<or> (\<exists>r\<in>set pre. lower (strip r) = ''[events]'')"
        using Cons.prems ass_body_in_events [OF b] by auto
      with Cons.IH [of st'] b show ?thesis by simp
    qed
  qed
qed

lemma split_chr_nonempty: "split_chr sep s \<noteq> []"
  by (induction s) (auto split: list.splits)

lemma split_chr_append:
  "split_chr sep (a @ sep # b) = split_chr sep a @ split_chr sep b"
proof (induction a)
  case Nil
  then show ?case by simp
next
  case (Cons c a)
  then show ?case
    using split_chr_nonempty [of sep a]
    by (cases "split_chr sep a") auto
qed

lemma split_chr_single: "sep \<notin> set s \<Longrightarrow> split_chr sep s = [s]"
  by (induction s) auto

text \<open>
  C5, as amended: the scan of the lines is a state machine whose schema is set by
  \<^verbatim>\<open>Format:\<close> lines and never reset.
  \<^item> Outside events mode, every line up to the first one that is \<^verbatim>\<open>[Events]\<close> after
    trimming and lower-casing leaves the state as it is, so no row before that header is
    consumed.
  \<^item> An \<^verbatim>\<open>[Events]\<close> header, the first or a repeated one, only sets the events mode;
    it leaves the schema as it is.
  \<^item> As long as no \<^verbatim>\<open>Format:\<close> line has been seen since the start of the scan, a
    \<^verbatim>\<open>Dialogue:\<close> row leaves the state as it is; and as long as no line starts with
    \<^verbatim>\<open>Format:\<close> the scan raises no exception, the schema stays undefined and nothing is
    emitted.
  \<^item> Once an \<^verbatim>\<open>[Events]\<close> header has been seen, a line that starts with \<^verbatim>\<open>[\<close> and is not
    an \<^verbatim>\<open>[Events]\<close> header ends the scan: the result is that of the lines before it,
    whatever follows, a second \<^verbatim>\<open>[Events]\<close> block included. The last conjunct says the
    same of the document text.
\<close>

theorem ass_scan_state_machine:
  "(\<not> in_events st \<and> (\<forall>raw\<in>set pre. lower (strip raw) \<noteq> ''[events]'')
      \<longrightarrow> ass_loop (pre @ rest) st = ass_loop rest st)
   \<and> (lower (strip row) = ''[events]''
      \<longrightarrow> ass_body row st = Inr (Some (st\<lparr>in_events := True\<rparr>)))
   \<and> (format_line st = None \<and> prefix ''dialogue:'' (lower (strip row))
      \<longrightarrow> ass_body row st = Inr (Some st))
   \<and> (format_line st = None \<and> (\<forall>raw\<in>set pre. \<not> prefix ''format:'' (lower (strip raw)))
      \<longrightarrow> (\<exists>st'. ass_loop pre st = Inr st' \<and> format_line st' = None
             \<and> vtt_lines st' = vtt_lines st))
   \<and> ((\<exists>raw\<in>set pre. lower (strip raw) = ''[events]'')
        \<and> prefix ''['' (strip h) \<and> lower (strip h) \<noteq> ''[events]''
      \<longrightarrow> ass_loop (pre @ h # post) st = ass_loop pre st)
   \<and> ((\<exists>raw\<in>set (split_chr NL a). lower (strip raw) = ''[events]'') \<and> NL \<notin> set h
        \<and> prefix ''['' (strip h) \<and> lower (strip h) \<noteq> ''[events]''
      \<longrightarrow> ass_to_vtt (a @ NL # h @ NL # b) = ass_to_vtt a)"
proof -
  have doc: "(\<exists>raw\<in>set (split_chr NL a). lower (strip raw) = ''[events]'') \<and> NL \<notin> set h
        \<and> prefix ''['' (strip h) \<and> lower (strip h) \<noteq> ''[events]''
      \<longrightarrow> ass_to_vtt (a @ NL # h @ NL # b) = ass_to_vtt a"
  proof
    assume p: "(\<exists>raw\<in>set (split_chr NL a). lower (strip raw) = ''[events]'') \<and> NL \<notin> set h
        \<and> prefix ''['' (strip h) \<and> lower (strip h) \<noteq> ''[events]''"
    have "split_chr NL (a @ NL # h @ NL # b) = split_chr NL a @ h # split_chr NL b"
      using p by (simp add: split_chr_append split_chr_single)
    then show "ass_to_vtt (a @ NL # h @ NL # b) = ass_to_vtt a"
      using p ass_loop_stops [of ass_init "split_chr NL a" h "split_chr NL b"]
      by (simp add: ass_to_vtt_def)
  qed
  show ?thesis
    using ass_loop_before_events [of st pre rest] ass_body_header [of row st]
      ass_body_no_format [of st row]
      ass_loop_no_format [of st pre] ass_loop_stops [of st pre h post] doc
    by blast
qed

text \<open>The theorem at short documents: rows before the header, a repeated header, a row
  before any format line, and a second events block after a \<^verbatim>\<open>[Fonts]\<close> header.\<close>

theorem ass_scan_state_machine_witness:
  "ass_loop ([''[Script Info]'', ''Dialogue: 0,0:00:01.00,0:00:02.00,Early''] @ [''[Events]''])
       ass_init = ass_loop [''[Events]''] ass_init
   \<and> ass_body '' [EVENTS]'' (ass_init\<lparr>in_events := True, format_line := Some [''text'']\<rparr>)
       = Inr (Some (ass_init\<lparr>in_events := True, format_line := Some [''text'']\<rparr>))
   \<and> ass_body ''Dialogue: 0,0:00:01.00,0:00:02.00,Early'' (ass_init\<lparr>in_events := True\<rparr>)
       = Inr (Some (ass_init\<lparr>in_events := True\<rparr>))
   \<and> (\<exists>st'. ass_loop [''[Events]'', ''Dialogue: 0,0:00:01.00,0:00:02.00,Early''] ass_init
               = Inr st' \<and> vtt_lines st' = [''WEBVTT'', []])
   \<and> ass_loop ([''[Events]'', ''Format: Start, End, Text''] @ ''[Fonts]'' #
         [''[Events]'', ''Dialogue: 0:00:05.00,0:00:06.00,Late'']) ass_init
       = ass_loop [''[Events]'', ''Format: Start, End, Text''] ass_init
   \<and> ass_to_vtt (''[Events]\<newline>Format: Start, End, Text'' @ NL # ''[Fonts]'' @ NL #
         ''[Events]\<newline>Dialogue: 0:00:05.00,0:00:06.00,Late'')
       = ass_to_vtt ''[Events]\<newline>Format: Start, End, Text''"
proof -
  have h1: "\<not> in_events ass_init \<and>
      (\<forall>raw\<in>set [''[Script Info]'', ''Dialogue: 0,0:00:01.00,0:00:02.00,Early''].
         lower (strip raw) \<noteq> ''[events]'')"
    by code_simp
  have h0: "lower (strip '' [EVENTS]'') = ''[events]''"
    by code_simp
  have h2: "format_line (ass_init\<lparr>in_events := True\<rparr>) = None \<and>
      prefix ''dialogue:'' (lower (strip ''Dialogue: 0,0:00:01.00,0:00:02.00,Early''))"
    by code_simp
  have h3: "format_line ass_init = None \<and>
      (\<forall>raw\<in>set [''[Events]'', ''Dialogue: 0,0:00:01.00,0:00:02.00,Early''].
         \<not> prefix ''format:'' (lower (strip raw)))"
    by code_simp
  have h4: "(\<exists>raw\<in>set [''[Events]'', ''Format: Start, End, Text''].
         lower (strip raw) = ''[events]'')
      \<and> prefix ''['' (strip ''[Fonts]'') \<and> lower (strip ''[Fonts]'') \<noteq> ''[events]''"
    by code_simp
  have h5: "(\<exists>raw\<in>set (split_chr NL ''[Events]\<newline>Format: Start, End, Text'').
         lower (strip raw) = ''[events]'') \<and> NL \<notin> set ''[Fonts]''
      \<and> prefix ''['' (strip ''[Fonts]'') \<and> lower (strip ''[Fonts]'') \<noteq> ''[events]''"
    by code_simp
  have v: "vtt_lines ass_init = [''WEBVTT'', []]"
    by (simp add: ass_init_def)
  note t1 = ass_scan_state_machine [where st = ass_init
      and pre = "[''[Script Info]'', ''Dialogue: 0,0:00:01.00,0:00:02.00,Early'']"
      and rest = "[''[Events]'']" and row = "[]" and h = "[]" and post = "[]"
      and a = "[]" and b = "[]"]
  note t0 = ass_scan_state_machine [where
      st = "ass_init\<lparr>in_events := True, format_line := Some [''text'']\<rparr>"
      and pre = "[]" and rest = "[]" and row = "'' [EVENTS]''" and h = "[]" and post = "[]"
      and a = "[]" and b = "[]"]
  note t2 = ass_scan_state_machine [where st = "ass_init\<lparr>in_events := True\<rparr>"
      and pre = "[]" and rest = "[]" and row = "''Dialogue: 0,0:00:01.00,0:00:02.00,Early''"
      and h = "[]" and post = "[]" and a = "[]" and b = "[]"]
  note t3 = ass_scan_state_machine [where st = ass_init
      and pre = "[''[Events]'', ''Dialogue: 0,0:00:01.00,0:00:02.00,Early'']"
      and rest = "[]" and row = "[]" and h = "[]" and post = "[]" and a = "[]" and b = "[]"]
  note t4 = ass_scan_state_machine [where st = ass_init
      and pre = "[''[Events]'', ''Format: Start, End, Text'']" and rest = "[]" and row = "[]"
      and h = "''[Fonts]''"
      and post = "[''[Events]'', ''Dialogue: 0:00:05.00,0:00:06.00,Late'']"
      and a = "''[Events]\<newline>Format: Start, End, Text''"
      and b = "''[Events]\<newline>Dialogue: 0:00:05.00,0:00:06.00,Late''"]
  have c1: "ass_loop ([''[Script Info]'', ''Dialogue: 0,0:00:01.00,0:00:02.00,Early''] @ [''[Events]''])
       ass_init = ass_loop [''[Events]''] ass_init"
    using t1 h1 by blast
  have c0: "ass_body '' [EVENTS]'' (ass_init\<lparr>in_events := True, format_line := Some [''text'']\<rparr>)
       = Inr (Some (ass_init\<lparr>in_events := True, format_line := Some [''text'']\<rparr>))"
    using t0 h0 by simp
  have c2: "ass_body ''Dialogue: 0,0:00:01.00,0:00:02.00,Early'' (ass_init\<lparr>in_events := True\<rparr>)
       = Inr (Some (ass_init\<lparr>in_events := True\<rparr>))"
    using t2 h2 by blast
  have c3: "\<exists>st'. ass_loop [''[Events]'', ''Dialogue: 0,0:00:01.00,0:00:02.00,Early''] ass_init
               = Inr st' \<and> vtt_lines st' = [''WEBVTT'', []]"
    using t3 h3 v by metis
  have c4: "ass_loop ([''[Events]'', ''Format: Start, End, Text''] @ ''[Fonts]'' #
         [''[Events]'', ''Dialogue: 0:00:05.00,0:00:06.00,Late'']) ass_init
       = ass_loop [''[Events]'', ''Format: Start, End, Text''] ass_init"
    using t4 h4 by blast
  have c5: "ass_to_vtt (''[Events]\<newline>Format: Start, End, Text'' @ NL # ''[Fonts]'' @ NL #
         ''[Events]\<newline>Dialogue: 0:00:05.00,0:00:06.00,Late'')
       = ass_to_vtt ''[Events]\<newline>Format: Start, End, Text''"
    using t4 h5 by blast
  show ?thesis
    using c1 c0 c2 c3 c4 c5 by (intro conjI)
qed

text \<open>
  C5 as the specification states it fails: a \<^verbatim>\<open>Dialogue:\<close> row that follows a repeated
  \<^verbatim>\<open>[Events]\<close> header, with no \<^verbatim>\<open>Format:\<close> line after that header, is not skipped. It
  is read with the schema of the \<^verbatim>\<open>Format:\<close> line before the header and gives a cue.
\<close>

theorem ass_repeated_events_counterexample:
  "ass_to_vtt ''[Events]\<newline>Format: Start, End, Text\<newline>[Events]\<newline>Dialogue:0:00:01.00,0:00:02.00,Hi''
     = Inr ''WEBVTT\<newline>\<newline>00:00:01.000 --> 00:00:02.000\<newline>Hi\<newline>''
   \<and> convert_to_vtt ''[Events]\<newline>Format: Start, End, Text\<newline>[Events]\<newline>Dialogue:0:00:01.00,0:00:02.00,Hi''
     = Inr ''WEBVTT\<newline>\<newline>00:00:01.000 --> 00:00:02.000\<newline>Hi\<newline>''"
  by code_simp

section \<open>The text of an ASS cue\<close>

text \<open>What \<^const>\<open>strip\<close> returns has no whitespace at either end.\<close>

lemma dropWhile_fixed: "xs = [] \<or> \<not> P (hd xs) \<Longrightarrow> dropWhile P xs = xs"
  by (cases xs) auto

lemma hd_dropWhile_not: "dropWhile P xs \<noteq> [] \<Longrightarrow> \<not> P (hd (dropWhile P xs))"
  by (simp add: hd_dropWhile)

lemma last_dropWhile: "dropWhile P xs \<noteq> [] \<Longrightarrow> last (dropWhile P xs) = last xs"
proof -
  assume a: "dropWhile P xs \<noteq> []"
  have "last xs = last (takeWhile P xs @ dropWhile P xs)" by simp
  also have "\<dots> = last (dropWhile P xs)" by (rule last_appendR [OF a])
  finally show ?thesis by simp
qed

lemma strip_Nil: "strip [] = []"
  by (simp add: strip_def)

lemma strip_ends:
  assumes "strip s \<noteq> []"
  shows "\<not> isspace (hd (strip s)) \<and> \<not> isspace (last (strip s))"
proof -
  let ?t = "dropWhile isspace s"
  let ?u = "dropWhile isspace (rev ?t)"
  have u: "?u \<noteq> []"
  proof
    assume "?u = []"
    then have "strip s = []" by (simp only: strip_def rev.simps)
    with assms show False by simp
  qed
  have t: "?t \<noteq> []"
  proof
    assume "?t = []"
    then have "?u = []" by (simp only: rev.simps dropWhile.simps)
    with u show False by simp
  qed
  have "last (strip s) = hd ?u"
    using u by (simp add: strip_def last_rev)
  moreover have "\<not> isspace (hd ?u)"
    using u by (rule hd_dropWhile_not)
  moreover have "hd (strip s) = last ?u"
    using u by (simp add: strip_def hd_rev)
  moreover have "last ?u = last (rev ?t)"
    using u by (rule last_dropWhile)
  moreover have "last (rev ?t) = hd ?t"
    using t by (simp add: last_rev)
  moreover have "\<not> isspace (hd ?t)"
    using t by (rule hd_dropWhile_not)
  ultimately show ?thesis by simp
qed

lemma strip_fixed:
  assumes "s \<noteq> []" and "\<not> isspace (hd s)" and "\<not> isspace (last s)"
  shows "strip s = s"
proof -
  have a: "dropWhile isspace s = s"
    using assms(2) by (simp add: dropWhile_fixed)
  have "hd (rev s) = last s"
    using assms(1) by (simp add: hd_rev)
  then have b: "dropWhile isspace (rev s) = rev s"
    using assms(3) by (simp add: dropWhile_fixed)
  show ?thesis
    by (subst strip_def) (simp add: a b)
qed

lemma strip_strip: "strip (strip s) = strip s"
proof (cases "strip s = []")
  case True
  then show ?thesis by (simp add: strip_Nil)
next
  case False
  from strip_ends [OF False] show ?thesis
    by (simp add: strip_fixed [OF False])
qed

lemma ass_dialogue_cases:
  "(\<exists>e. ass_dialogue fl line [] = Inl e) \<or> ass_dialogue fl line [] = Inr [] \<or>
   (\<exists>timing cue. ass_dialogue fl line [] = Inr [timing, strip cue, []] \<and> strip cue \<noteq> [])"
  by (auto simp: ass_dialogue_def Let_def split: sum.splits)

lemma ass_dialogue_emits:
  assumes "ass_dialogue fl line vtt = Inr vtt'"
  shows "vtt' = vtt \<or>
   (\<exists>timing cue. vtt' = vtt @ [timing, strip cue, []] \<and> strip cue \<noteq> [])"
  using ass_dialogue_cases [of fl line] assms
  by (subst (asm) ass_dialogue_append) (auto split: sum.splits)

lemma ass_body_vtt_lines:
  assumes "ass_body raw st = Inr (Some st')"
  shows "vtt_lines st' = vtt_lines st \<or>
    (\<exists>fl. ass_dialogue fl (strip raw) (vtt_lines st) = Inr (vtt_lines st'))"
  using assms
  by (auto simp: ass_body_def Let_def split: if_splits option.splits sum.splits)

lemma ass_body_emits:
  assumes "ass_body raw st = Inr (Some st')"
  shows "vtt_lines st' = vtt_lines st \<or>
    (\<exists>timing cue. vtt_lines st' = vtt_lines st @ [timing, strip cue, []] \<and> strip cue \<noteq> [])"
  using ass_body_vtt_lines [OF assms]
proof
  assume "vtt_lines st' = vtt_lines st"
  then show ?thesis by simp
next
  assume "\<exists>fl. ass_dialogue fl (strip raw) (vtt_lines st) = Inr (vtt_lines st')"
  then obtain fl where "ass_dialogue fl (strip raw) (vtt_lines st) = Inr (vtt_lines st')"
    by blast
  from ass_dialogue_emits [OF this] show ?thesis .
qed

lemma ass_loop_cues:
  assumes "ass_loop ls st = Inr st'"
  shows "\<exists>cues. vtt_lines st'
       = vtt_lines st @ concat (map (\<lambda>(timing, cue). [timing, cue, []]) cues)
     \<and> (\<forall>(timing, cue)\<in>set cues. cue \<noteq> [] \<and> strip cue = cue)"
  using assms
proof (induction ls arbitrary: st)
  case Nil
  then have "st' = st" by simp
  then show ?case by (intro exI [of _ "[]"]) simp
next
  case (Cons raw ls)
  from Cons.prems obtain r where b: "ass_body raw st = Inr r"
    by (cases "ass_body raw st") simp_all
  show ?case
  proof (cases r)
    case None
    with b Cons.prems have "st' = st" by simp
    then show ?thesis by (intro exI [of _ "[]"]) simp
  next
    case (Some st1)
    with b have b1: "ass_body raw st = Inr (Some st1)" by simp
    with Cons.prems have l: "ass_loop ls st1 = Inr st'" by simp
    from Cons.IH [OF l] obtain cues where
      c: "vtt_lines st'
            = vtt_lines st1 @ concat (map (\<lambda>(timing, cue). [timing, cue, []]) cues)"
      and w: "\<forall>(timing, cue)\<in>set cues. cue \<noteq> [] \<and> strip cue = cue"
      by blast
    from ass_body_emits [OF b1] show ?thesis
    proof
      assume "vtt_lines st1 = vtt_lines st"
      with c w show ?thesis by auto
    next
      assume "\<exists>timing cue. vtt_lines st1 = vtt_lines st @ [timing, strip cue, []]
                \<and> strip cue \<noteq> []"
      then obtain timing cue where
        e: "vtt_lines st1 = vtt_lines st @ [timing, strip cue, []]" "strip cue \<noteq> []"
        by blast
      let ?cues = "(timing, strip cue) # cues"
      have "vtt_lines st'
            = vtt_lines st @ concat (map (\<lambda>(timing, cue). [timing, cue, []]) ?cues)"
        using c e by simp
      moreover have "\<forall>(timing, cue)\<in>set ?cues. cue \<noteq> [] \<and> strip cue = cue"
        using w e(2) by (simp add: strip_strip)
      ultimately show ?thesis by blast
    qed
  qed
qed

text \<open>
  C10: unless the conversion ends with the exception, the lines that \<^const>\<open>ass_to_vtt\<close>
  joins are the header, a blank line and, for each cue, its timing line, its text and
  a blank line; every cue text is not empty, is its own \<^const>\<open>strip\<close>, and neither starts
  nor ends with a whitespace character. A conversion that raises emits nothing.
\<close>

theorem ass_cue_text_stripped:
  "ass_to_vtt ass_content = Inl ValueError \<or>
   (\<exists>cues st. ass_loop (split_chr NL ass_content) ass_init = Inr st
     \<and> vtt_lines st
       = [''WEBVTT'', []] @ concat (map (\<lambda>(timing, cue). [timing, cue, []]) cues)
     \<and> ass_to_vtt ass_content
       = Inr (join_nl ([''WEBVTT'', []] @ concat (map (\<lambda>(timing, cue). [timing, cue, []]) cues)))
     \<and> (\<forall>(timing, cue)\<in>set cues.
          cue \<noteq> [] \<and> strip cue = cue \<and> \<not> isspace (hd cue) \<and> \<not> isspace (last cue)))"
proof (cases "ass_loop (split_chr NL ass_content) ass_init")
  case (Inl e)
  then have "ass_to_vtt ass_content = Inl ValueError"
    by (cases e) (simp add: ass_to_vtt_def)
  then show ?thesis by (rule disjI1)
next
  case (Inr st)
  from ass_loop_cues [OF Inr] obtain cues where
    c: "vtt_lines st
       = vtt_lines ass_init @ concat (map (\<lambda>(timing, cue). [timing, cue, []]) cues)"
    and w: "\<forall>(timing, cue)\<in>set cues. cue \<noteq> [] \<and> strip cue = cue"
    by blast
  have e: "\<forall>(timing, cue)\<in>set cues.
          cue \<noteq> [] \<and> strip cue = cue \<and> \<not> isspace (hd cue) \<and> \<not> isspace (last cue)"
  proof (clarify, intro conjI)
    fix timing cue
    assume m: "(timing, cue) \<in> set cues"
    with w have t: "cue \<noteq> []" "strip cue = cue" by auto
    show "cue \<noteq> []" by (rule t(1))
    show "strip cue = cue" by (rule t(2))
    from strip_ends [of cue] t
    show "\<not> isspace (hd cue)" and "\<not> isspace (last cue)" by simp_all
  qed
  have v: "vtt_lines ass_init = [''WEBVTT'', []]"
    by (simp add: ass_init_def)
  have "\<exists>cues st. ass_loop (split_chr NL ass_content) ass_init = Inr st
     \<and> vtt_lines st
       = [''WEBVTT'', []] @ concat (map (\<lambda>(timing, cue). [timing, cue, []]) cues)
     \<and> ass_to_vtt ass_content
       = Inr (join_nl ([''WEBVTT'', []] @ concat (map (\<lambda>(timing, cue). [timing, cue, []]) cues)))
     \<and> (\<forall>(timing, cue)\<in>set cues.
          cue \<noteq> [] \<and> strip cue = cue \<and> \<not> isspace (hd cue) \<and> \<not> isspace (last cue))"
    using c v e Inr unfolding ass_to_vtt_def
    by (intro exI [of _ cues] exI [of _ st]) simp
  then show ?thesis by (rule disjI2)
qed

text \<open>The theorem at a row whose text has blanks, a tag and a line break escape around it.\<close>

theorem ass_cue_text_stripped_witness:
  "ass_to_vtt (''[Events]\<newline>Format: Layer, Start, End, Text\<newline>Dialogue: 0,0:00:01.00,0:00:02.00,  Hi {''
          @ [BSL] @ ''b1}there '' @ [BSL] @ ''N'')
     = Inr ''WEBVTT\<newline>\<newline>00:00:01.000 --> 00:00:02.000\<newline>Hi there\<newline>''
   \<and> (\<exists>cues st. ass_loop (split_chr NL
       (''[Events]\<newline>Format: Layer, Start, End, Text\<newline>Dialogue: 0,0:00:01.00,0:00:02.00,  Hi {''
          @ [BSL] @ ''b1}there '' @ [BSL] @ ''N'')) ass_init = Inr st
     \<and> vtt_lines st
       = [''WEBVTT'', []] @ concat (map (\<lambda>(timing, cue). [timing, cue, []]) cues)
     \<and> ass_to_vtt (''[Events]\<newline>Format: Layer, Start, End, Text\<newline>Dialogue: 0,0:00:01.00,0:00:02.00,  Hi {''
          @ [BSL] @ ''b1}there '' @ [BSL] @ ''N'')
       = Inr (join_nl ([''WEBVTT'', []] @ concat (map (\<lambda>(timing, cue). [timing, cue, []]) cues)))
     \<and> (\<forall>(timing, cue)\<in>set cues.
          cue \<noteq> [] \<and> strip cue = cue \<and> \<not> isspace (hd cue) \<and> \<not> isspace (last cue)))"
proof -
  let ?doc = "''[Events]\<newline>Format: Layer, Start, End, Text\<newline>Dialogue: 0,0:00:01.00,0:00:02.00,  Hi {''
          @ [BSL] @ ''b1}there '' @ [BSL] @ ''N''"
  have r: "ass_to_vtt ?doc = Inr ''WEBVTT\<newline>\<newline>00:00:01.000 --> 00:00:02.000\<newline>Hi there\<newline>''"
    by code_simp
  then have n: "ass_to_vtt ?doc \<noteq> Inl ValueError"
    by simp
  from ass_cue_text_stripped [of ?doc]
  have "\<exists>cues st. ass_loop (split_chr NL ?doc) ass_init = Inr st
     \<and> vtt_lines st
       = [''WEBVTT'', []] @ concat (map (\<lambda>(timing, cue). [timing, cue, []]) cues)
     \<and> ass_to_vtt ?doc
       = Inr (join_nl ([''WEBVTT'', []] @ concat (map (\<lambda>(timing, cue). [timing, cue, []]) cues)))
     \<and> (\<forall>(timing, cue)\<in>set cues.
          cue \<noteq> [] \<and> strip cue = cue \<and> \<not> isspace (hd cue) \<and> \<not> isspace (last cue))"
  proof (rule disjE)
    assume "ass_to_vtt ?doc = Inl ValueError"
    with n show ?thesis by (rule notE)
  next
    assume "\<exists>cues st. ass_loop (split_chr NL ?doc) ass_init = Inr st
     \<and> vtt_lines st
       = [''WEBVTT'', []] @ concat (map (\<lambda>(timing, cue). [timing, cue, []]) cues)
     \<and> ass_to_vtt ?doc
       = Inr (join_nl ([''WEBVTT'', []] @ concat (map (\<lambda>(timing, cue). [timing, cue, []]) cues)))
     \<and> (\<forall>(timing, cue)\<in>set cues.
          cue \<noteq> [] \<and> strip cue = cue \<and> \<not> isspace (hd cue) \<and> \<not> isspace (last cue))"
    then show ?thesis .
  qed
  with r show ?thesis by (rule conjI)
qed

section \<open>ASS timestamps\<close>

text \<open>
  The scanner \<^const>\<open>match_timestamp\<close> succeeds exactly on the strings that start with
  digits, a colon, two digits, a colon, two digits, a period and two digits, and its
  groups are those pieces.
\<close>

lemma not_isdigit_colon: "\<not> isdigit (CHR '':'')"
  by (simp add: isdigit_def)

lemma digits2_cases: "digits2 s \<Longrightarrow> \<exists>a b. s = [a, b] \<and> isdigit a \<and> isdigit b"
  by (cases s; cases "tl s") (auto simp: digits2_def)

lemma takeWhile_digits:
  "list_all isdigit h \<Longrightarrow> takeWhile isdigit (h @ CHR '':'' # r) = h"
  by (induction h) (simp_all add: not_isdigit_colon)

lemma dropWhile_digits:
  "list_all isdigit h \<Longrightarrow> dropWhile isdigit (h @ CHR '':'' # r) = CHR '':'' # r"
  by (induction h) (simp_all add: not_isdigit_colon)

lemma match_timestamp_shape:
  assumes "digits1 h" and "digits2 m" and "digits2 s" and "digits2 cs"
  shows "match_timestamp (h @ '':'' @ m @ '':'' @ s @ ''.'' @ cs @ rest) = Some (h, m, s, cs)"
proof -
  obtain m1 m2 where m: "m = [m1, m2]" "isdigit m1" "isdigit m2"
    using digits2_cases [OF assms(2)] by blast
  obtain s1 s2 where s: "s = [s1, s2]" "isdigit s1" "isdigit s2"
    using digits2_cases [OF assms(3)] by blast
  obtain x1 x2 where x: "cs = [x1, x2]" "isdigit x1" "isdigit x2"
    using digits2_cases [OF assms(4)] by blast
  from assms(1) have h: "h \<noteq> []" "list_all isdigit h"
    by (simp_all add: digits1_def)
  show ?thesis
    unfolding match_timestamp_def
    by (simp add: takeWhile_digits [OF h(2)] dropWhile_digits [OF h(2)] h(1) m s x
          split: list.splits)
qed

lemma match_timestamp_Some:
  assumes "match_timestamp ts = Some (h, m, s, cs)"
  shows "\<exists>rest. ts = h @ '':'' @ m @ '':'' @ s @ ''.'' @ cs @ rest \<and>
           digits1 h \<and> digits2 m \<and> digits2 s \<and> digits2 cs"
proof -
  have ts: "ts = takeWhile isdigit ts @ dropWhile isdigit ts"
    by simp
  have hd: "list_all isdigit (takeWhile isdigit ts)"
    by (simp add: list_all_iff) (meson set_takeWhileD)
  from assms obtain m1 m2 s1 s2 x1 x2 rest where
    d: "dropWhile isdigit ts = CHR '':'' # m1 # m2 # CHR '':'' # s1 # s2 # CHR ''.'' # x1 # x2 # rest"
    and g: "h = takeWhile isdigit ts" "h \<noteq> []" "m = [m1, m2]" "s = [s1, s2]" "cs = [x1, x2]"
      "isdigit m1" "isdigit m2" "isdigit s1" "isdigit s2" "isdigit x1" "isdigit x2"
    unfolding match_timestamp_def Let_def
    by (auto split: if_splits list.splits)
  have "ts = h @ '':'' @ m @ '':'' @ s @ ''.'' @ cs @ rest"
    using ts d g by simp
  moreover have "digits1 h \<and> digits2 m \<and> digits2 s \<and> digits2 cs"
    using hd g by (simp add: digits1_def digits2_def)
  ultimately show ?thesis by blast
qed

lemma match_timestamp_None:
  "match_timestamp ts = None \<longleftrightarrow>
     \<not> (\<exists>h m s cs rest. ts = h @ '':'' @ m @ '':'' @ s @ ''.'' @ cs @ rest \<and>
           digits1 h \<and> digits2 m \<and> digits2 s \<and> digits2 cs)"
proof
  assume n: "match_timestamp ts = None"
  show "\<not> (\<exists>h m s cs rest. ts = h @ '':'' @ m @ '':'' @ s @ ''.'' @ cs @ rest \<and>
            digits1 h \<and> digits2 m \<and> digits2 s \<and> digits2 cs)"
  proof
    assume "\<exists>h m s cs rest. ts = h @ '':'' @ m @ '':'' @ s @ ''.'' @ cs @ rest \<and>
            digits1 h \<and> digits2 m \<and> digits2 s \<and> digits2 cs"
    then obtain h m s cs rest where
      "ts = h @ '':'' @ m @ '':'' @ s @ ''.'' @ cs @ rest"
      "digits1 h" "digits2 m" "digits2 s" "digits2 cs"
      by blast
    then have "match_timestamp ts = Some (h, m, s, cs)"
      using match_timestamp_shape by blast
    with n show False by simp
  qed
next
  assume a: "\<not> (\<exists>h m s cs rest. ts = h @ '':'' @ m @ '':'' @ s @ ''.'' @ cs @ rest \<and>
            digits1 h \<and> digits2 m \<and> digits2 s \<and> digits2 cs)"
  show "match_timestamp ts = None"
  proof (cases "match_timestamp ts")
    case None
    then show ?thesis .
  next
    case (Some q)
    obtain h m s cs where "q = (h, m, s, cs)" by (cases q) auto
    with Some a match_timestamp_Some [of ts h m s cs] show ?thesis by blast
  qed
qed

lemma convert_timestamp_unmatched:
  assumes "match_timestamp ts = None"
  shows "convert_timestamp ts = Inr ts"
  using assms by (simp add: convert_timestamp_def)

text \<open>
  The hours: \<^verbatim>\<open>{int(h):02d}\<close> prints the numeral of \<open>h\<close> without its redundant leading
  zeros, padded to two digits.
\<close>

lemma digits_value_snoc:
  "digits_value (xs @ [c]) = 10 * digits_value xs + (of_char c - 48)"
  by (simp add: digits_value_def)

lemma digits_value_zeros: "digits_value (replicate k (CHR ''0'') @ s) = digits_value s"
proof -
  have "foldl (\<lambda>n c. 10 * n + (of_char c - 48)) (0::nat) (replicate k (CHR ''0'')) = 0"
    by (induction k) simp_all
  then show ?thesis by (simp add: digits_value_def)
qed

lemma digits_value_dropWhile:
  "digits_value (dropWhile (\<lambda>c. c = CHR ''0'') h) = digits_value h"
proof -
  let ?t = "takeWhile (\<lambda>c. c = CHR ''0'') h"
  have "\<forall>y\<in>set ?t. y = CHR ''0''"
    by (auto dest: set_takeWhileD)
  then have "replicate (length ?t) (CHR ''0'') = ?t"
    by (rule replicate_length_same)
  then have "digits_value (?t @ dropWhile (\<lambda>c. c = CHR ''0'') h)
      = digits_value (dropWhile (\<lambda>c. c = CHR ''0'') h)"
    using digits_value_zeros [of "length ?t" "dropWhile (\<lambda>c. c = CHR ''0'') h"] by simp
  then show ?thesis by simp
qed

lemma digit_char:
  assumes "isdigit c"
  shows "(of_char c :: nat) - 48 < 10 \<and> char_of (48 + ((of_char c :: nat) - 48)) = c"
proof -
  from assms have "48 \<le> (of_char c :: nat) \<and> (of_char c :: nat) \<le> 57"
    by (simp add: isdigit_def Let_def)
  then have k: "(of_char c :: nat) - 48 < 10" "48 + ((of_char c :: nat) - 48) = of_char c"
    by arith+
  show ?thesis
    using k by simp
qed

lemma str_nat_canonical:
  assumes "list_all isdigit z" and "z \<noteq> []" and "hd z \<noteq> CHR ''0''"
  shows "str_nat (digits_value z) = z \<and> 0 < digits_value z"
  using assms
proof (induction z rule: rev_induct)
  case Nil
  then show ?case by simp
next
  case (snoc c xs)
  let ?k = "(of_char c :: nat) - 48"
  from snoc.prems(1) have dc: "isdigit c" and dx: "list_all isdigit xs"
    by simp_all
  from digit_char [OF dc] have k: "?k < 10" "char_of (48 + ?k) = c"
    by simp_all
  show ?case
  proof (cases "xs = []")
    case True
    with snoc.prems(3) have "c \<noteq> CHR ''0''" by simp
    then have c0: "c \<noteq> CHR ''0''" .
    have k0: "?k \<noteq> 0"
    proof
      assume "?k = 0"
      with k(2) have "c = char_of (48::nat)" by simp
      also have "char_of (48::nat) = CHR ''0''" by code_simp
      finally show False using c0 by simp
    qed
    have "str_nat ?k = [c]"
      using k by (subst str_nat.simps) simp
    with True k0 show ?thesis
      by (simp add: digits_value_def)
  next
    case False
    with snoc.prems(3) have "hd xs \<noteq> CHR ''0''" by simp
    from snoc.IH [OF dx False this] have ih: "str_nat (digits_value xs) = xs"
      "0 < digits_value xs"
      by simp_all
    let ?n = "10 * digits_value xs + ?k"
    have n: "\<not> ?n < 10" "?n div 10 = digits_value xs" "?n mod 10 = ?k"
      using ih(2) k(1) by simp_all
    have "str_nat ?n = xs @ [c]"
      by (subst str_nat.simps) (simp only: n ih(1) k(2) if_False)
    then show ?thesis
      using ih(2) by (simp add: digits_value_snoc)
  qed
qed

lemma str_nat_digits_value:
  assumes "digits1 h"
  shows "str_nat (digits_value h) = canonical_digits h"
proof (cases "dropWhile (\<lambda>c. c = CHR ''0'') h = []")
  case True
  then have "digits_value (dropWhile (\<lambda>c. c = CHR ''0'') h) = digits_value []"
    by (simp only:)
  then have "digits_value h = 0"
    unfolding digits_value_dropWhile by (simp add: digits_value_def)
  moreover have "str_nat 0 = ''0''"
    by code_simp
  ultimately show ?thesis
    using True by (simp add: canonical_digits_def)
next
  case False
  let ?z = "dropWhile (\<lambda>c. c = CHR ''0'') h"
  have d: "list_all isdigit ?z"
    using assms by (auto simp: digits1_def list_all_iff dest: set_dropWhileD)
  have "hd ?z \<noteq> CHR ''0''"
    using hd_dropWhile [OF False] .
  from str_nat_canonical [OF d False this] have "str_nat (digits_value ?z) = ?z"
    by simp
  then show ?thesis
    using False by (auto simp: canonical_digits_def digits_value_dropWhile)
qed

lemma fmt02d_canonical:
  assumes "digits1 h"
  shows "fmt02d (digits_value h) = zero_pad2 (canonical_digits h)"
  by (simp add: fmt02d_def zero_pad2_def str_nat_digits_value [OF assms])

lemma canonical_digits_same:
  assumes "h \<noteq> []" and "length h \<le> 2 \<or> hd h \<noteq> CHR ''0''"
  shows "zero_pad2 (canonical_digits h) = zero_pad2 h"
proof (cases "hd h = CHR ''0''")
  case False
  with assms(1) have "dropWhile (\<lambda>c. c = CHR ''0'') h = h"
    by (cases h) simp_all
  with assms(1) show ?thesis
    by (simp add: canonical_digits_def)
next
  case True
  with assms have l: "length h \<le> 2" by simp
  from assms(1) True obtain t where h: "h = CHR ''0'' # t"
    by (cases h) simp_all
  show ?thesis
  proof (cases t)
    case Nil
    with h show ?thesis
      by (simp add: canonical_digits_def zero_pad2_def)
  next
    case (Cons d t')
    with h l have t': "t' = []" by simp
    with h Cons show ?thesis
      by (simp add: canonical_digits_def zero_pad2_def)
  qed
qed

lemma convert_timestamp_shape:
  assumes "digits1 h" and "digits2 m" and "digits2 s" and "digits2 cs"
  shows "convert_timestamp (h @ '':'' @ m @ '':'' @ s @ ''.'' @ cs @ rest) =
           (if int_max_str_digits < length h then Inl ValueError
            else Inr (zero_pad2 (canonical_digits h) @ '':'' @ m @ '':'' @ s @ ''.'' @ cs @ ''0''))"
  using match_timestamp_shape [OF assms, of rest] fmt02d_canonical [OF assms(1)]
  by (simp add: convert_timestamp_def int_of_digits_def)

lemma digits1_ones: "0 < n \<Longrightarrow> digits1 (replicate n (CHR ''1''))"
  by (simp add: digits1_def list_all_iff isdigit_def)

text \<open>
  C3, as amended. For a timestamp \<open>H:MM:SS.cc\<close> (one or more hour digits, two digits each
  for minutes, seconds and centiseconds) whose hours have at most 4300 digits, the result
  is the hours without their redundant leading zeros, padded with zeros to two digits,
  the minutes and seconds unchanged, and the two centisecond digits followed by the digit
  \<open>0\<close>. When the hours have at most two digits or do not start with a zero, this is the
  hours as written, padded with zeros to two digits. With more than 4300 hour digits the
  conversion raises \<open>ValueError\<close>. A string that does not start with such a timestamp is
  returned as it is. So \<open>.50\<close> gives \<open>.500\<close> and \<open>.05\<close> gives \<open>.050\<close>.
\<close>

theorem convert_timestamp_centiseconds:
  "(digits1 h \<and> digits2 m \<and> digits2 s \<and> digits2 cs \<and> length h \<le> int_max_str_digits \<longrightarrow>
      convert_timestamp (h @ '':'' @ m @ '':'' @ s @ ''.'' @ cs)
        = Inr (zero_pad2 (canonical_digits h) @ '':'' @ m @ '':'' @ s @ ''.'' @ cs @ ''0''))
   \<and> (digits1 h \<and> digits2 m \<and> digits2 s \<and> digits2 cs \<and> length h \<le> int_max_str_digits
        \<and> (length h \<le> 2 \<or> hd h \<noteq> CHR ''0'') \<longrightarrow>
      convert_timestamp (h @ '':'' @ m @ '':'' @ s @ ''.'' @ cs)
        = Inr (zero_pad2 h @ '':'' @ m @ '':'' @ s @ ''.'' @ cs @ ''0''))
   \<and> (digits1 h \<and> digits2 m \<and> digits2 s \<and> digits2 cs \<and> int_max_str_digits < length h \<longrightarrow>
      convert_timestamp (h @ '':'' @ m @ '':'' @ s @ ''.'' @ cs) = Inl ValueError)
   \<and> int_max_str_digits = 4300
   \<and> (\<not> (\<exists>h' m' s' cs' rest. ts = h' @ '':'' @ m' @ '':'' @ s' @ ''.'' @ cs' @ rest \<and>
            digits1 h' \<and> digits2 m' \<and> digits2 s' \<and> digits2 cs')
        \<longrightarrow> convert_timestamp ts = Inr ts)
   \<and> convert_timestamp ''0:00:01.50'' = Inr ''00:00:01.500''
   \<and> convert_timestamp ''0:00:01.05'' = Inr ''00:00:01.050''"
proof (intro conjI impI)
  assume a: "digits1 h \<and> digits2 m \<and> digits2 s \<and> digits2 cs \<and> length h \<le> int_max_str_digits"
  then show "convert_timestamp (h @ '':'' @ m @ '':'' @ s @ ''.'' @ cs)
        = Inr (zero_pad2 (canonical_digits h) @ '':'' @ m @ '':'' @ s @ ''.'' @ cs @ ''0'')"
    using convert_timestamp_shape [of h m s cs "[]"] by simp
next
  assume a: "digits1 h \<and> digits2 m \<and> digits2 s \<and> digits2 cs \<and> length h \<le> int_max_str_digits
        \<and> (length h \<le> 2 \<or> hd h \<noteq> CHR ''0'')"
  then have "h \<noteq> []" by (simp add: digits1_def)
  then have "zero_pad2 (canonical_digits h) = zero_pad2 h"
    using a by (intro canonical_digits_same) simp_all
  with a show "convert_timestamp (h @ '':'' @ m @ '':'' @ s @ ''.'' @ cs)
        = Inr (zero_pad2 h @ '':'' @ m @ '':'' @ s @ ''.'' @ cs @ ''0'')"
    using convert_timestamp_shape [of h m s cs "[]"] by simp
next
  assume a: "digits1 h \<and> digits2 m \<and> digits2 s \<and> digits2 cs \<and> int_max_str_digits < length h"
  then show "convert_timestamp (h @ '':'' @ m @ '':'' @ s @ ''.'' @ cs) = Inl ValueError"
    using convert_timestamp_shape [of h m s cs "[]"] by simp
next
  show "int_max_str_digits = 4300"
    by (rule int_max_str_digits_def)
next
  assume "\<not> (\<exists>h' m' s' cs' rest. ts = h' @ '':'' @ m' @ '':'' @ s' @ ''.'' @ cs' @ rest \<and>
            digits1 h' \<and> digits2 m' \<and> digits2 s' \<and> digits2 cs')"
  then have "match_timestamp ts = None"
    by (rule match_timestamp_None [THEN iffD2])
  then show "convert_timestamp ts = Inr ts"
    by (rule convert_timestamp_unmatched)
next
  show "convert_timestamp ''0:00:01.50'' = Inr ''00:00:01.500''"
    by code_simp
next
  show "convert_timestamp ''0:00:01.05'' = Inr ''00:00:01.050''"
    by code_simp
qed

text \<open>The theorem at \<open>0012:05:06.07\<close>, at \<open>12:34:56.78\<close>, at a value of 4301 hour digits, and
  at a value with a leading blank.\<close>

theorem convert_timestamp_centiseconds_witness:
  "convert_timestamp ''0012:05:06.07'' = Inr ''12:05:06.070''
   \<and> convert_timestamp ''12:34:56.78'' = Inr ''12:34:56.780''
   \<and> convert_timestamp (replicate 4301 (CHR ''1'') @ '':00:00.00'') = Inl ValueError
   \<and> convert_timestamp '' 0:00:01.50'' = Inr '' 0:00:01.50''"
proof -
  have d1: "digits1 ''0012'' \<and> digits2 ''05'' \<and> digits2 ''06'' \<and> digits2 ''07''
      \<and> length ''0012'' \<le> int_max_str_digits"
    by code_simp
  have f1: "zero_pad2 (canonical_digits ''0012'') = ''12''"
    by code_simp
  have d2: "digits1 ''12'' \<and> digits2 ''34'' \<and> digits2 ''56'' \<and> digits2 ''78''
      \<and> length ''12'' \<le> int_max_str_digits \<and> (length ''12'' \<le> 2 \<or> hd ''12'' \<noteq> CHR ''0'')"
    by code_simp
  have f2: "zero_pad2 ''12'' = ''12''"
    by code_simp
  have d3: "digits1 (replicate 4301 (CHR ''1'')) \<and> digits2 ''00''
      \<and> int_max_str_digits < length (replicate 4301 (CHR ''1''))"
    using digits1_ones [of 4301] by (simp add: int_max_str_digits_def digits2_def isdigit_def)
  have u: "\<not> (\<exists>h' m' s' cs' rest.
              '' 0:00:01.50'' = h' @ '':'' @ m' @ '':'' @ s' @ ''.'' @ cs' @ rest \<and>
              digits1 h' \<and> digits2 m' \<and> digits2 s' \<and> digits2 cs')"
    by (auto simp: digits1_def isdigit_def Cons_eq_append_conv)
  have c1: "convert_timestamp ''0012:05:06.07'' = Inr ''12:05:06.070''"
    using convert_timestamp_centiseconds [of "''0012''" "''05''" "''06''" "''07''" "[]",
        THEN conjunct1] d1 f1
    by simp
  have c2: "convert_timestamp ''12:34:56.78'' = Inr ''12:34:56.780''"
    using convert_timestamp_centiseconds [of "''12''" "''34''" "''56''" "''78''" "[]",
        THEN conjunct2, THEN conjunct1] d2 f2
    by simp
  have c3: "convert_timestamp (replicate 4301 (CHR ''1'') @ '':00:00.00'') = Inl ValueError"
    using convert_timestamp_centiseconds [of "replicate 4301 (CHR ''1'')" "''00''" "''00''"
        "''00''" "[]", THEN conjunct2, THEN conjunct2, THEN conjunct1] d3
    by simp
  have c4: "convert_timestamp '' 0:00:01.50'' = Inr '' 0:00:01.50''"
    using convert_timestamp_centiseconds [of "[]" "[]" "[]" "[]" "'' 0:00:01.50''"] u
    by blast
  show ?thesis
    using c1 c2 c3 c4 by (intro conjI)
qed

text \<open>
  C3 as the specification states it fails: the hours \<open>007\<close>, zero-padded to a width of at
  least two, are \<open>007\<close>, and the conversion prints \<open>07\<close>; and a timestamp of the shape with
  4301 hour digits is not converted, the conversion raises.
\<close>

theorem convert_timestamp_hours_counterexample:
  "convert_timestamp ''007:00:00.00'' = Inr ''07:00:00.000''
   \<and> zero_pad2 ''007'' @ '':00:00.000'' = ''007:00:00.000''
   \<and> convert_timestamp (replicate 4301 (CHR ''0'') @ ''7:00:00.00'') = Inl ValueError"
proof (intro conjI)
  show "convert_timestamp ''007:00:00.00'' = Inr ''07:00:00.000''"
    by code_simp
  show "zero_pad2 ''007'' @ '':00:00.000'' = ''007:00:00.000''"
    by code_simp
  have d: "digits1 (replicate 4301 (CHR ''0'') @ ''7'')"
    by (simp add: digits1_def list_all_iff isdigit_def)
  have "convert_timestamp ((replicate 4301 (CHR ''0'') @ ''7'') @ '':'' @ ''00'' @ '':'' @ ''00''
          @ ''.'' @ ''00'' @ []) = Inl ValueError"
    by (subst convert_timestamp_shape [OF d])
      (simp_all add: digits2_def isdigit_def int_max_str_digits_def)
  then show "convert_timestamp (replicate 4301 (CHR ''0'') @ ''7:00:00.00'') = Inl ValueError"
    by simp
qed

text \<open>
  C9, as amended: the pattern is matched at the start of the value only. Whatever follows
  the two centisecond digits has no effect on the result, so \<open>0:00:01.505\<close> becomes
  \<open>00:00:01.500\<close>; with at most 4300 hour digits the result is the converted prefix, with
  more the conversion raises \<open>ValueError\<close>; the match fails exactly when no prefix of the
  value has the shape, and only then is the value returned by the pass-through branch.
\<close>

theorem convert_timestamp_prefix:
  "(digits1 h \<and> digits2 m \<and> digits2 s \<and> digits2 cs \<longrightarrow>
      convert_timestamp (h @ '':'' @ m @ '':'' @ s @ ''.'' @ cs @ rest)
        = convert_timestamp (h @ '':'' @ m @ '':'' @ s @ ''.'' @ cs))
   \<and> (digits1 h \<and> digits2 m \<and> digits2 s \<and> digits2 cs \<and> length h \<le> int_max_str_digits \<longrightarrow>
      convert_timestamp (h @ '':'' @ m @ '':'' @ s @ ''.'' @ cs @ rest)
        = Inr (zero_pad2 (canonical_digits h) @ '':'' @ m @ '':'' @ s @ ''.'' @ cs @ ''0''))
   \<and> (digits1 h \<and> digits2 m \<and> digits2 s \<and> digits2 cs \<and> int_max_str_digits < length h \<longrightarrow>
      convert_timestamp (h @ '':'' @ m @ '':'' @ s @ ''.'' @ cs @ rest) = Inl ValueError)
   \<and> convert_timestamp ''0:00:01.505'' = Inr ''00:00:01.500''
   \<and> (match_timestamp ts = None \<longleftrightarrow>
        \<not> (\<exists>h' m' s' cs' rest'. ts = h' @ '':'' @ m' @ '':'' @ s' @ ''.'' @ cs' @ rest' \<and>
              digits1 h' \<and> digits2 m' \<and> digits2 s' \<and> digits2 cs'))
   \<and> (match_timestamp ts = None \<longrightarrow> convert_timestamp ts = Inr ts)"
proof -
  have same: "digits1 h \<and> digits2 m \<and> digits2 s \<and> digits2 cs \<longrightarrow>
      convert_timestamp (h @ '':'' @ m @ '':'' @ s @ ''.'' @ cs @ rest)
        = convert_timestamp (h @ '':'' @ m @ '':'' @ s @ ''.'' @ cs)"
    using convert_timestamp_shape [of h m s cs rest] convert_timestamp_shape [of h m s cs "[]"]
    by simp
  have conv: "digits1 h \<and> digits2 m \<and> digits2 s \<and> digits2 cs \<and> length h \<le> int_max_str_digits \<longrightarrow>
      convert_timestamp (h @ '':'' @ m @ '':'' @ s @ ''.'' @ cs @ rest)
        = Inr (zero_pad2 (canonical_digits h) @ '':'' @ m @ '':'' @ s @ ''.'' @ cs @ ''0'')"
    using convert_timestamp_shape [of h m s cs rest] by simp
  have raises: "digits1 h \<and> digits2 m \<and> digits2 s \<and> digits2 cs \<and> int_max_str_digits < length h \<longrightarrow>
      convert_timestamp (h @ '':'' @ m @ '':'' @ s @ ''.'' @ cs @ rest) = Inl ValueError"
    using convert_timestamp_shape [of h m s cs rest] by simp
  have e: "convert_timestamp ''0:00:01.505'' = Inr ''00:00:01.500''"
    by code_simp
  have pass: "match_timestamp ts = None \<longrightarrow> convert_timestamp ts = Inr ts"
    by (simp add: convert_timestamp_unmatched)
  show ?thesis
    using same conv raises e match_timestamp_None [of ts] pass by (intro conjI)
qed

text \<open>The theorem at a value with trailing text, at a value of 4301 hour digits with
  trailing text, and at one with a one-digit seconds field.\<close>

theorem convert_timestamp_prefix_witness:
  "convert_timestamp ''1:02:03.04 and more'' = Inr ''01:02:03.040''
   \<and> convert_timestamp ''1:02:03.04 and more'' = convert_timestamp ''1:02:03.04''
   \<and> convert_timestamp (replicate 4301 (CHR ''1'') @ '':02:03.04 and more'') = Inl ValueError
   \<and> convert_timestamp ''0:00:01.505'' = Inr ''00:00:01.500''
   \<and> match_timestamp ''0:00:1.50'' = None
   \<and> convert_timestamp ''0:00:1.50'' = Inr ''0:00:1.50''"
proof -
  have d: "digits1 ''1'' \<and> digits2 ''02'' \<and> digits2 ''03'' \<and> digits2 ''04''
      \<and> length ''1'' \<le> int_max_str_digits"
    by code_simp
  have f: "zero_pad2 (canonical_digits ''1'') = ''01''"
    by code_simp
  have d3: "digits1 (replicate 4301 (CHR ''1'')) \<and> digits2 ''02'' \<and> digits2 ''03''
      \<and> digits2 ''04'' \<and> int_max_str_digits < length (replicate 4301 (CHR ''1''))"
    using digits1_ones [of 4301] by (simp add: int_max_str_digits_def digits2_def isdigit_def)
  have n: "match_timestamp ''0:00:1.50'' = None"
    by code_simp
  note t1 = convert_timestamp_prefix [of "''1''" "''02''" "''03''" "''04''" "'' and more''"
        "''0:00:1.50''"]
  note t2 = convert_timestamp_prefix [of "replicate 4301 (CHR ''1'')" "''02''" "''03''" "''04''"
        "'' and more''" "[]"]
  have c1: "convert_timestamp ''1:02:03.04 and more'' = Inr ''01:02:03.040''"
    using t1 [THEN conjunct2, THEN conjunct1] d f by simp
  have c2: "convert_timestamp ''1:02:03.04 and more'' = convert_timestamp ''1:02:03.04''"
    using t1 [THEN conjunct1] d by simp
  have c3: "convert_timestamp (replicate 4301 (CHR ''1'') @ '':02:03.04 and more'') = Inl ValueError"
    using t2 [THEN conjunct2, THEN conjunct2, THEN conjunct1] d3 by simp
  have c4: "convert_timestamp ''0:00:01.505'' = Inr ''00:00:01.500''"
    using t1 [THEN conjunct2, THEN conjunct2, THEN conjunct2, THEN conjunct1] .
  have c5: "convert_timestamp ''0:00:1.50'' = Inr ''0:00:1.50''"
    using t1 [THEN conjunct2, THEN conjunct2, THEN conjunct2, THEN conjunct2, THEN conjunct2] n
    by (rule mp)
  show ?thesis
    using c1 c2 c3 c4 n c5 by (intro conjI)
qed

text \<open>
  C9 as stated fails: a value whose prefix has the shape, with 4301 hour digits, is
  matched by the pattern and then not converted; the conversion raises.
\<close>

theorem convert_timestamp_prefix_counterexample:
  "match_timestamp (replicate 4301 (CHR ''1'') @ '':00:01.505'')
     = Some (replicate 4301 (CHR ''1''), ''00'', ''01'', ''50'')
   \<and> convert_timestamp (replicate 4301 (CHR ''1'') @ '':00:01.505'') = Inl ValueError"
proof
  have d: "digits1 (replicate 4301 (CHR ''1''))"
    by (rule digits1_ones) simp
  have d2: "digits2 ''00''" "digits2 ''01''" "digits2 ''50''"
    by (simp_all add: digits2_def isdigit_def)
  have "match_timestamp (replicate 4301 (CHR ''1'') @ '':'' @ ''00'' @ '':'' @ ''01'' @ ''.''
          @ ''50'' @ ''5'') = Some (replicate 4301 (CHR ''1''), ''00'', ''01'', ''50'')"
    by (rule match_timestamp_shape [OF d d2])
  then show "match_timestamp (replicate 4301 (CHR ''1'') @ '':00:01.505'')
     = Some (replicate 4301 (CHR ''1''), ''00'', ''01'', ''50'')"
    by simp
  have "convert_timestamp (replicate 4301 (CHR ''1'') @ '':'' @ ''00'' @ '':'' @ ''01'' @ ''.''
          @ ''50'' @ ''5'') = Inl ValueError"
    by (subst convert_timestamp_shape [OF d d2]) (simp add: int_max_str_digits_def)
  then show "convert_timestamp (replicate 4301 (CHR ''1'') @ '':00:01.505'') = Inl ValueError"
    by simp
qed

section \<open>One block of an SRT document\<close>










section \<open>The blocks of an SRT document\<close>

text \<open>Where \<^const>\<open>split_blank\<close> cuts, and that stripping adds no place to cut.\<close>

lemma not_sublist_tl: "\<not> sublist xs (y # ys) \<Longrightarrow> \<not> sublist xs ys"
  by (simp add: sublist_Cons_right)

lemma split_blank_single:
  "\<not> sublist [NL, NL] s \<Longrightarrow> split_blank cur s = [rev cur @ s]"
proof (induction s arbitrary: cur)
  case Nil
  then show ?case by simp
next
  case (Cons c s)
  have n: "\<not> (c = NL \<and> take 1 s = [NL])"
  proof
    assume "c = NL \<and> take 1 s = [NL]"
    then obtain s' where "c # s = [NL, NL] @ s'"
      by (cases s) auto
    then have "sublist [NL, NL] (c # s)"
      by (metis sublist_append_rightI)
    with Cons.prems show False by simp
  qed
  have "split_blank (c # cur) s = [rev (c # cur) @ s]"
    using Cons.IH not_sublist_tl [OF Cons.prems] by simp
  with n show ?case by simp
qed

lemma split_blank_cut:
  "\<not> sublist [NL, NL] a \<Longrightarrow> a = [] \<or> last a \<noteq> NL \<Longrightarrow>
   split_blank cur (a @ NL # NL # b)
     = (rev cur @ a) # split_blank [] (dropWhile (\<lambda>x. x = NL) b)"
proof (induction a arbitrary: cur)
  case Nil
  then show ?case by simp
next
  case (Cons c a)
  have n: "\<not> (c = NL \<and> take 1 (a @ NL # NL # b) = [NL])"
  proof
    assume p: "c = NL \<and> take 1 (a @ NL # NL # b) = [NL]"
    show False
    proof (cases a)
      case Nil
      with p Cons.prems(2) show False by simp
    next
      case (Cons d a')
      with p have "c # a = [NL, NL] @ a'" by simp
      then have "sublist [NL, NL] (c # a)"
        by (metis sublist_append_rightI)
      with Cons.prems(1) show False by simp
    qed
  qed
  have l: "a = [] \<or> last a \<noteq> NL"
    using Cons.prems(2) by (cases a) auto
  have "split_blank (c # cur) (a @ NL # NL # b)
     = (rev (c # cur) @ a) # split_blank [] (dropWhile (\<lambda>x. x = NL) b)"
    using Cons.IH [OF not_sublist_tl [OF Cons.prems(1)] l] .
  with n show ?case by simp
qed

lemma sublist_strip: "sublist (strip s) s"
proof -
  let ?t = "dropWhile isspace s"
  have "rev ?t = takeWhile isspace (rev ?t) @ dropWhile isspace (rev ?t)"
    by simp
  then have "?t = rev (dropWhile isspace (rev ?t)) @ rev (takeWhile isspace (rev ?t))"
    by (metis rev_append rev_rev_ident)
  then have t: "?t = strip s @ rev (takeWhile isspace (rev ?t))"
    unfolding strip_def .
  have "s = takeWhile isspace s @ ?t" by simp
  with t have "s = takeWhile isspace s @ strip s @ rev (takeWhile isspace (rev ?t))"
    by simp
  then show ?thesis
    by (metis sublist_appendI)
qed

lemma srt_single_block:
  assumes "srt_content \<noteq> []" and "\<not> sublist [NL, NL] srt_content"
  shows "srt_to_vtt srt_content = join_nl (srt_body (strip srt_content) [''WEBVTT'', []])"
proof -
  have "\<not> sublist [NL, NL] (strip srt_content)"
    using assms(2) sublist_strip [of srt_content] sublist_order.order.trans by blast
  then have "split_blank [] (strip srt_content) = [strip srt_content]"
    using split_blank_single [where cur = "[]" and s = "strip srt_content"] by simp
  with assms(1) show ?thesis
    by (simp add: srt_to_vtt_def)
qed

text \<open>
  C7, as amended. Line endings are not normalised: the document is cut only at runs of
  two or more line feeds, and a carriage return is a character like any other. A piece
  without two adjacent line feeds that does not end in a line feed is cut off at the
  run that follows it, and the line feeds of the run are dropped; a text without two
  adjacent line feeds is one block, so such a document is converted as the single block
  of its stripped text.
\<close>

theorem srt_blocks_at_line_feed_runs:
  "(\<not> sublist [NL, NL] a \<and> (a = [] \<or> last a \<noteq> NL)
      \<longrightarrow> split_blank [] (a @ NL # NL # b) = a # split_blank [] (dropWhile (\<lambda>x. x = NL) b))
   \<and> (\<not> sublist [NL, NL] s \<longrightarrow> split_blank [] s = [s])
   \<and> (srt_content \<noteq> [] \<and> \<not> sublist [NL, NL] srt_content
      \<longrightarrow> srt_to_vtt srt_content = join_nl (srt_body (strip srt_content) [''WEBVTT'', []]))"
proof (intro conjI impI)
  assume "\<not> sublist [NL, NL] a \<and> (a = [] \<or> last a \<noteq> NL)"
  then show "split_blank [] (a @ NL # NL # b) = a # split_blank [] (dropWhile (\<lambda>x. x = NL) b)"
    using split_blank_cut [where cur = "[]" and a = a and b = b] by simp
next
  assume "\<not> sublist [NL, NL] s"
  then show "split_blank [] s = [s]"
    using split_blank_single [where cur = "[]" and s = s] by simp
next
  assume "srt_content \<noteq> [] \<and> \<not> sublist [NL, NL] srt_content"
  then show "srt_to_vtt srt_content = join_nl (srt_body (strip srt_content) [''WEBVTT'', []])"
    using srt_single_block [of srt_content] by simp
qed

text \<open>The theorem at a document of two entries, once cut at a blank line and once with
  CRLF line endings, where the whole text is one block and one cue.\<close>

theorem srt_blocks_at_line_feed_runs_witness:
  "split_blank [] (''1\<newline>a --> b'' @ NL # NL # ''\<newline>2\<newline>c --> d'')
      = [''1\<newline>a --> b'', ''2\<newline>c --> d'']
   \<and> split_blank [] (''1'' @ [CR, NL] @ ''00:00:01,000 --> 00:00:02,000'' @ [CR, NL] @ ''A''
         @ [CR, NL, CR, NL] @ ''2'' @ [CR, NL] @ ''00:00:03,000 --> 00:00:04,000'' @ [CR, NL] @ ''B'')
      = [''1'' @ [CR, NL] @ ''00:00:01,000 --> 00:00:02,000'' @ [CR, NL] @ ''A''
         @ [CR, NL, CR, NL] @ ''2'' @ [CR, NL] @ ''00:00:03,000 --> 00:00:04,000'' @ [CR, NL] @ ''B'']
   \<and> srt_to_vtt (''1'' @ [CR, NL] @ ''00:00:01,000 --> 00:00:02,000'' @ [CR, NL] @ ''A''
         @ [CR, NL, CR, NL] @ ''2'' @ [CR, NL] @ ''00:00:03,000 --> 00:00:04,000'' @ [CR, NL] @ ''B'')
      = join_nl [''WEBVTT'', [], ''00:00:01.000 --> 00:00:02.000'' @ [CR], ''A'' @ [CR], [CR],
          ''2'' @ [CR], ''00:00:03,000 --> 00:00:04,000'' @ [CR], ''B'', []]"
proof -
  let ?crlf = "''1'' @ [CR, NL] @ ''00:00:01,000 --> 00:00:02,000'' @ [CR, NL] @ ''A''
         @ [CR, NL, CR, NL] @ ''2'' @ [CR, NL] @ ''00:00:03,000 --> 00:00:04,000'' @ [CR, NL] @ ''B''"
  have ha: "\<not> sublist [NL, NL] ''1\<newline>a --> b'' \<and>
      (''1\<newline>a --> b'' = [] \<or> last ''1\<newline>a --> b'' \<noteq> NL)"
    by code_simp
  have hb: "split_blank [] (dropWhile (\<lambda>x. x = NL) ''\<newline>2\<newline>c --> d'') = [''2\<newline>c --> d'']"
    by code_simp
  have hs: "\<not> sublist [NL, NL] ?crlf"
    by code_simp
  have hn: "?crlf \<noteq> []"
    by simp
  have hv: "srt_body (strip ?crlf) [''WEBVTT'', []]
      = [''WEBVTT'', [], ''00:00:01.000 --> 00:00:02.000'' @ [CR], ''A'' @ [CR], [CR],
          ''2'' @ [CR], ''00:00:03,000 --> 00:00:04,000'' @ [CR], ''B'', []]"
    by code_simp
  note t = srt_blocks_at_line_feed_runs [of "''1\<newline>a --> b''" "''\<newline>2\<newline>c --> d''" ?crlf ?crlf]
  have c1: "split_blank [] (''1\<newline>a --> b'' @ NL # NL # ''\<newline>2\<newline>c --> d'')
      = [''1\<newline>a --> b'', ''2\<newline>c --> d'']"
    using t ha hb by metis
  have c2: "split_blank [] ?crlf = [?crlf]"
    using t hs by blast
  have c3: "srt_to_vtt ?crlf = join_nl (srt_body (strip ?crlf) [''WEBVTT'', []])"
    using t hs hn by blast
  show ?thesis
    using c1 c2 c3 unfolding hv by (intro conjI)
qed

text \<open>
  C7 as the specification states it fails: the same two entries give two blocks and two
  cues with LF line endings, and one block and one cue, carriage returns kept, with CRLF
  line endings.
\<close>

theorem srt_crlf_counterexample:
  "length (split_blank [] (strip
       ''1\<newline>00:00:01,000 --> 00:00:02,000\<newline>A\<newline>\<newline>2\<newline>00:00:03,000 --> 00:00:04,000\<newline>B'')) = 2
   \<and> length (split_blank [] (strip (''1'' @ [CR, NL] @ ''00:00:01,000 --> 00:00:02,000'' @ [CR, NL]
         @ ''A'' @ [CR, NL, CR, NL] @ ''2'' @ [CR, NL] @ ''00:00:03,000 --> 00:00:04,000''
         @ [CR, NL] @ ''B''))) = 1
   \<and> srt_to_vtt ''1\<newline>00:00:01,000 --> 00:00:02,000\<newline>A\<newline>\<newline>2\<newline>00:00:03,000 --> 00:00:04,000\<newline>B''
      = join_nl [''WEBVTT'', [], ''00:00:01.000 --> 00:00:02.000'', ''A'', [],
          ''00:00:03.000 --> 00:00:04.000'', ''B'', []]
   \<and> srt_to_vtt (''1'' @ [CR, NL] @ ''00:00:01,000 --> 00:00:02,000'' @ [CR, NL]
         @ ''A'' @ [CR, NL, CR, NL] @ ''2'' @ [CR, NL] @ ''00:00:03,000 --> 00:00:04,000''
         @ [CR, NL] @ ''B'')
      = join_nl [''WEBVTT'', [], ''00:00:01.000 --> 00:00:02.000'' @ [CR], ''A'' @ [CR], [CR],
          ''2'' @ [CR], ''00:00:03,000 --> 00:00:04,000'' @ [CR], ''B'', []]"
  by code_simp

section \<open>A row that raises\<close>

text \<open>
  A \<^verbatim>\<open>Dialogue:\<close> row whose start time has more hour digits than \<^verbatim>\<open>int\<close> accepts ends
  the conversion of the document with the exception.
\<close>

lemma split_max_cut:
  "sep \<notin> set a \<Longrightarrow> split_max sep (Suc n) (a @ sep # b) = a # split_max sep n b"
  by (induction a) auto

lemma isdigit_comma: "\<not> isdigit (CHR '','')"
  by (simp add: isdigit_def)

lemma isdigit_NL: "\<not> isdigit NL"
  by (simp add: isdigit_def)

lemma ass_dialogue_raises:
  assumes "digits1 H" and "int_max_str_digits < length H"
  shows "ass_dialogue [''layer'', ''start'', ''end'', ''text'']
           (''Dialogue:'' @ '' 0,'' @ H @ '':00:00.00,0:00:01.00,Hi'') [] = Inl ValueError"
proof -
  have c: "CHR '','' \<notin> set H"
    using assms(1) isdigit_comma by (auto simp: digits1_def list_all_iff)
  have s1: "split_max (CHR '','') (Suc 0) ''0:00:01.00,Hi'' = [''0:00:01.00'', ''Hi'']"
    by code_simp
  have s2: "split_max (CHR '','') (Suc (Suc 0))
              ((H @ '':00:00.00'') @ CHR '','' # ''0:00:01.00,Hi'')
            = (H @ '':00:00.00'') # split_max (CHR '','') (Suc 0) ''0:00:01.00,Hi''"
    by (rule split_max_cut) (simp add: c)
  have p: "split_max (CHR '','') (Suc (Suc (Suc 0)))
             ('' 0,'' @ H @ '':00:00.00,0:00:01.00,Hi'')
           = ['' 0'', H @ '':00:00.00'', ''0:00:01.00'', ''Hi'']"
    using s2 s1 by simp
  have d2: "digits2 ''00''"
    by (simp add: digits2_def isdigit_def)
  have "convert_timestamp (H @ '':'' @ ''00'' @ '':'' @ ''00'' @ ''.'' @ ''00'' @ [])
          = Inl ValueError"
    using convert_timestamp_shape [OF assms(1) d2 d2 d2, of "[]"] assms(2) by simp
  then have ct: "convert_timestamp (H @ '':00:00.00'') = Inl ValueError"
    by simp
  have dr: "drop 9 (''Dialogue:'' @ '' 0,'' @ H @ '':00:00.00,0:00:01.00,Hi'')
      = '' 0,'' @ H @ '':00:00.00,0:00:01.00,Hi''"
    by simp
  show ?thesis
    unfolding ass_dialogue_def Let_def dr
    using p ct by (simp add: dict_get_def)
qed

lemma ass_body_raises:
  assumes "digits1 H" and "int_max_str_digits < length H" and "in_events st"
    and "format_line st = Some [''layer'', ''start'', ''end'', ''text'']"
  shows "ass_body (''Dialogue:'' @ '' 0,'' @ H @ '':00:00.00,0:00:01.00,Hi'') st = Inl ValueError"
proof -
  let ?d = "''Dialogue:'' @ '' 0,'' @ H @ '':00:00.00,0:00:01.00,Hi''"
  have sp: "\<not> isspace (CHR ''D'')" "\<not> isspace (CHR ''i'')"
    by (simp_all add: isspace_def)
  have st: "strip ?d = ?d"
    by (rule strip_fixed) (simp_all add: sp)
  have l0: "lower ''Dialogue:'' = ''dialogue:''"
    by code_simp
  have "lower ?d = lower ''Dialogue:'' @ lower ('' 0,'' @ H @ '':00:00.00,0:00:01.00,Hi'')"
    unfolding lower_def by (simp only: map_append)
  then have pd: "prefix ''dialogue:'' (lower (strip ?d))"
    unfolding st l0 by simp
  have n: "[''layer'', ''start'', ''end'', ''text''] \<noteq> []"
    by simp
  show ?thesis
    using ass_body_dialogue [OF assms(3) assms(4) n pd] ass_dialogue_raises [OF assms(1,2)]
    unfolding st by simp
qed

lemma convert_raises:
  assumes "digits1 H" and "int_max_str_digits < length H"
  shows "convert_to_vtt (''[Events]\<newline>Format: Layer, Start, End, Text\<newline>Dialogue: 0,'' @ H
            @ '':00:00.00,0:00:01.00,Hi'') = Inl ValueError"
proof -
  let ?d = "''Dialogue:'' @ '' 0,'' @ H @ '':00:00.00,0:00:01.00,Hi''"
  let ?doc = "''[Events]'' @ NL # ''Format: Layer, Start, End, Text'' @ NL # ?d"
  have nl: "NL \<notin> set ?d"
    using assms(1) isdigit_NL by (auto simp: digits1_def list_all_iff)
  have "split_chr NL ?doc
      = split_chr NL ''[Events]'' @ split_chr NL ''Format: Layer, Start, End, Text''
          @ split_chr NL ?d"
    by (simp only: split_chr_append)
  moreover have "split_chr NL ''[Events]'' = [''[Events]'']"
    "split_chr NL ''Format: Layer, Start, End, Text'' = [''Format: Layer, Start, End, Text'']"
    by code_simp+
  moreover have "split_chr NL ?d = [?d]"
    using nl by (rule split_chr_single)
  ultimately have sp: "split_chr NL ?doc
      = [''[Events]'', ''Format: Layer, Start, End, Text'', ?d]"
    by simp
  have "ass_body ?d (ass_init\<lparr>in_events := True,
            format_line := Some [''layer'', ''start'', ''end'', ''text'']\<rparr>) = Inl ValueError"
    by (rule ass_body_raises [OF assms]) simp_all
  then have "ass_loop [''[Events]'', ''Format: Layer, Start, End, Text'', ?d] ass_init
      = Inl ValueError"
    by (simp add: ass_body_events_header ass_body_format_layer)
  then have a: "ass_to_vtt ?doc = Inl ValueError"
    unfolding ass_to_vtt_def sp by simp
  have "sublist ''[Events]'' (''[Events]'' @ NL # ''Format: Layer, Start, End, Text'' @ NL # ?d)"
    by (rule sublist_append_rightI)
  then have "convert_to_vtt ?doc = Inl ValueError"
    using a by (simp add: convert_to_vtt_def)
  then show ?thesis
    by simp
qed

section \<open>Header-only output\<close>

text \<open>C8: the empty input converts to the header followed by a blank line.\<close>

theorem convert_empty: "convert_to_vtt [] = Inr ''WEBVTT\<newline>\<newline>''"
  by (simp add: convert_to_vtt_def)

text \<open>
  C6 at inputs without any cue: a blank, an SRT block without a timestamp line and an
  events section whose row has no schema each convert to \<^verbatim>\<open>WEBVTT\<close> and one line feed,
  the join of the header and one empty line, and not to the text returned for the empty
  input. And the conversion can raise: an events section with a row whose start time has
  4301 hour digits ends it with \<open>ValueError\<close>.
\<close>

theorem convert_zero_cues:
  "convert_to_vtt '' '' = Inr ''WEBVTT\<newline>''
   \<and> convert_to_vtt ''1\<newline>no arrow here\<newline>Hello'' = Inr ''WEBVTT\<newline>''
   \<and> convert_to_vtt ''[Events]\<newline>Dialogue: 0,0:00:01.00,0:00:02.00,Hi'' = Inr ''WEBVTT\<newline>''
   \<and> convert_to_vtt '' '' \<noteq> Inr ''WEBVTT\<newline>\<newline>''
   \<and> convert_to_vtt [] = Inr ''WEBVTT\<newline>\<newline>''
   \<and> convert_to_vtt (''[Events]\<newline>Format: Layer, Start, End, Text\<newline>Dialogue: 0,''
        @ replicate 4301 (CHR ''1'') @ '':00:00.00,0:00:01.00,Hi'') = Inl ValueError"
proof (intro conjI)
  show "convert_to_vtt '' '' = Inr ''WEBVTT\<newline>''"
    by code_simp
  show "convert_to_vtt ''1\<newline>no arrow here\<newline>Hello'' = Inr ''WEBVTT\<newline>''"
    by code_simp
  show "convert_to_vtt ''[Events]\<newline>Dialogue: 0,0:00:01.00,0:00:02.00,Hi'' = Inr ''WEBVTT\<newline>''"
    by code_simp
  show "convert_to_vtt '' '' \<noteq> Inr ''WEBVTT\<newline>\<newline>''"
    by code_simp
  show "convert_to_vtt [] = Inr ''WEBVTT\<newline>\<newline>''"
    by code_simp
  show "convert_to_vtt (''[Events]\<newline>Format: Layer, Start, End, Text\<newline>Dialogue: 0,''
        @ replicate 4301 (CHR ''1'') @ '':00:00.00,0:00:01.00,Hi'') = Inl ValueError"
    by (rule convert_raises) (simp_all add: digits1_ones int_max_str_digits_def)
qed

end
